theory Spec2Isabelle
  imports Main "HOL-Library.AList"
begin

section \<open>The session and presence manager of the chat gateway\<close>

text \<open>
  A shallow embedding of \<^verbatim>\<open>server/src/client/client-manager.ts\<close> (class
  \<^verbatim>\<open>ClientManager\<close>). Every handler of the class is one HOL function that takes
  the state of the process and returns the new one. \<^verbatim>\<open>onClientAuthenticated\<close> is
  \<^verbatim>\<open>async\<close>: it is modelled twice, as one function that runs the login to its end, and in
  the two parts before and after its first \<^verbatim>\<open>await\<close>, between which other handlers run.
  Strings are lists of code units, so \<open>length\<close> is the \<^verbatim>\<open>.length\<close> of the source.

  Left out: the log lines; \<^verbatim>\<open>onClientConnected\<close> and the registration of the handlers of
  a socket (any handler below can be run for any socket); failures of the store and of the
  image service, which are outside the manager. The payload of an event is an object, as the
  signatures say; its fields may be absent.
\<close>

subsection \<open>Data\<close>

text \<open>The entity \<^verbatim>\<open>User\<close> of \<^verbatim>\<open>@/db\<close>, with the fields the manager reads and writes.\<close>

record User =
  user_id :: string
  user_name :: string
  user_avatar :: string
  user_lastLogin :: nat
  user_bot :: bool

text \<open>
  Modelled from the spec: the class \<^verbatim>\<open>Client\<close> of \<^verbatim>\<open>@/client\<close> is not among the
  sources. A client is the logical identity: its user record and the set of connections
  attached to it (spec 3, "a single Identity may own zero or more live Connections"). The set is
  kept as a list without repetitions of socket ids.
\<close>

record Client =
  client_user :: User
  client_sockets :: "string list"

text \<open>
  Modelled from the spec: the serialized identity \<open>{id, name, avatarUrl, isBot}\<close> (spec 6),
  without its optional status.
\<close>

record Serialized =
  ser_id :: string
  ser_name :: string
  ser_avatarUrl :: string
  ser_isBot :: bool

text \<open>The embed payload, with the fields of the type \<^verbatim>\<open>Embed\<close> of \<^verbatim>\<open>models/index.ts\<close>.\<close>

record EmbedAuthor =
  author_value :: string
  author_iconUrl :: string

record Embed =
  embed_author :: "EmbedAuthor option"
  embed_title :: "string option"
  embed_description :: "string option"
  embed_color :: "int option"
  embed_footer :: "string option"
  embed_imageUrl :: "string option"
  embed_thumbnailUrl :: "string option"

text \<open>
  What the manager sends: \<open>Ready\<close> is the unicast \<^verbatim>\<open>socket.emit("ready", ...)\<close> to the socket
  named first; the others are the broadcasts \<^verbatim>\<open>io.emit\<close> of \<^verbatim>\<open>"sys-join"\<close>,
  \<^verbatim>\<open>"sys-leave"\<close>, \<^verbatim>\<open>"usr-typ"\<close> (id, name) and \<^verbatim>\<open>"usr-msg"\<close> (id, user, content,
  embed, mentions).
\<close>

datatype event =
    Ready string Serialized "Serialized list" string
  | SysJoin Serialized
  | SysLeave Serialized
  | UsrTyp string string
  | UsrMsg string string string "Embed option" "string list"

datatype error = TypeError

datatype outcome = Returned | Threw error

text \<open>
  Modelled from the spec: the class \<^verbatim>\<open>RateLimit\<close> of \<^verbatim>\<open>@/utils/rate-limit\<close> is not
  among the sources. Its state is a map from a key to a window counter (count, start of the
  window), spec 3.
\<close>

record RateLimit =
  rl_capacity :: nat
  rl_windowMillis :: nat
  rl_windows :: "(string \<times> nat \<times> nat) list"

text \<open>
  The state of the process. A JavaScript \<^verbatim>\<open>Map\<close> keeps its keys in insertion order, so
  \<open>clients\<close> and \<open>sockets\<close> are association lists (\<open>map_of\<close> is \<^verbatim>\<open>get\<close>,
  \<open>AList.update\<close> is \<^verbatim>\<open>set\<close>: it overwrites in place or appends, \<open>AList.delete\<close> is
  \<^verbatim>\<open>delete\<close>). Both maps hold references to \<^verbatim>\<open>Client\<close> objects, and one object is
  reached from both: the objects live in \<open>heap\<close>, a reference is an index into it, and
  \<^verbatim>\<open>container.resolve(Client)\<close> allocates at the end. \<open>snowFlake\<close> is the sequence
  number of the id generator, \<open>db\<close> the table of persisted users, \<open>emitted\<close> the events
  sent so far, oldest first.
\<close>

record state =
  clients :: "(string \<times> nat) list"
  sockets :: "(string \<times> nat) list"
  heap :: "Client list"
  messageRateLimit :: RateLimit
  snowFlake :: nat
  db :: "User list"
  emitted :: "event list"

text \<open>The payloads of \<^verbatim>\<open>"login"\<close> and \<^verbatim>\<open>"usr-msg"\<close>; \<open>None\<close> is an absent field.\<close>

record ClientAuthRequest =
  req_token :: "string option"
  req_name :: "string option"
  req_bot :: bool

record Msg =
  message :: "string option"

text \<open>
  The collaborators whose code is not among the sources are parameters of the model:
  \<^verbatim>\<open>tokenService.decode\<close> (\<open>None\<close>: it throws; \<open>Some i\<close>: a token with id \<open>i\<close>),
  \<^verbatim>\<open>tokenService.createToken\<close>, \<^verbatim>\<open>normalizeName\<close> (\<open>None\<close>: it throws),
  \<^verbatim>\<open>escapeHtml\<close> (of a string or of \<^verbatim>\<open>undefined\<close>), \<^verbatim>\<open>validateEmbed\<close>, and
  \<^verbatim>\<open>commandManager.handle(this, client, text)\<close>, which may do anything to the manager and
  says whether a command consumed the text.
\<close>

record env =
  tokenService_decode :: "string \<Rightarrow> string option"
  tokenService_createToken :: "string \<Rightarrow> string"
  normalizeName :: "string \<Rightarrow> string option"
  escapeHtml :: "string option \<Rightarrow> error + string"
  validateEmbed :: "Embed option \<Rightarrow> Embed option"
  commandManager_handle :: "state \<Rightarrow> nat option \<Rightarrow> string option \<Rightarrow> (error + bool) \<times> state"

subsection \<open>The classes the manager uses\<close>

text \<open>
  Modelled from the spec: the getter \<^verbatim>\<open>Client.id\<close>, not among the sources, is the id of the
  user record (spec 3, Identity).
\<close>

definition Client_id :: "Client \<Rightarrow> string" where
  "Client_id c = user_id (client_user c)"

text \<open>
  Modelled from the spec: the getter \<^verbatim>\<open>Client.name\<close>, not among the sources, is the display
  name of the user record (spec 3, Identity).
\<close>

definition Client_name :: "Client \<Rightarrow> string" where
  "Client_name c = user_name (client_user c)"

text \<open>
  Modelled from the spec: \<^verbatim>\<open>Client.serialize\<close>, not among the sources, gives the
  serialized identity (spec 6).
\<close>

definition serialize :: "Client \<Rightarrow> Serialized" where
  "serialize c =
     \<lparr>ser_id = Client_id c, ser_name = Client_name c,
      ser_avatarUrl = user_avatar (client_user c), ser_isBot = user_bot (client_user c)\<rparr>"

text \<open>
  Modelled from the spec: \<^verbatim>\<open>Client.registerSocket\<close>, not among the sources, attaches the
  connection to the identity's connection set (spec 4.1, registerConnection step 4).
\<close>

definition registerSocket :: "Client \<Rightarrow> string \<Rightarrow> Client" where
  "registerSocket c sid = c\<lparr>client_sockets := List.insert sid (client_sockets c)\<rparr>"

text \<open>
  Modelled from the spec: \<^verbatim>\<open>Client.unregisterSocket\<close>, not among the sources, removes the
  connection from the identity's connection set and answers whether the set has become empty
  (spec 4.1, unregisterConnection).
\<close>

definition unregisterSocket :: "Client \<Rightarrow> string \<Rightarrow> bool \<times> Client" where
  "unregisterSocket c sid =
     (let rest = removeAll sid (client_sockets c)
      in (rest = [], c\<lparr>client_sockets := rest\<rparr>))"

text \<open>
  Modelled from the spec: \<^verbatim>\<open>RateLimit.check\<close>, not among the sources, at time \<open>now\<close>
  (spec 4.2). The first action
  of a key opens its window; inside the window actions pass until the capacity is used up; once
  the window has elapsed the counter starts again.
\<close>

definition check :: "RateLimit \<Rightarrow> string \<Rightarrow> nat \<Rightarrow> bool \<times> RateLimit" where
  "check rl key now =
     (case map_of (rl_windows rl) key of
        None \<Rightarrow> (True, rl\<lparr>rl_windows := AList.update key (1, now) (rl_windows rl)\<rparr>)
      | Some (count, start) \<Rightarrow>
          if rl_windowMillis rl \<le> now - start
          then (True, rl\<lparr>rl_windows := AList.update key (1, now) (rl_windows rl)\<rparr>)
          else if count < rl_capacity rl
          then (True, rl\<lparr>rl_windows := AList.update key (Suc count, start) (rl_windows rl)\<rparr>)
          else (False, rl))"

text \<open>
  \<^verbatim>\<open>snowFlake.nextId().toString()\<close>: the generator hands out its sequence number and
  moves on; \<open>toString\<close> writes a number in decimal.
\<close>

definition digit :: "nat \<Rightarrow> char" where
  "digit d = char_of (48 + d)"

function toString :: "nat \<Rightarrow> string" where
  "toString n = (if n < 10 then [digit n] else toString (n div 10) @ [digit (n mod 10)])"
  by pat_completeness auto
termination
  by (relation "measure (\<lambda>n. n)") auto

declare toString.simps [simp del]

definition nextId :: "state \<Rightarrow> nat \<times> state" where
  "nextId st = (snowFlake st, st\<lparr>snowFlake := Suc (snowFlake st)\<rparr>)"

text \<open>
  Modelled from the spec: the store of users (\<^verbatim>\<open>@/db\<close>, not among the sources) is a
  keyed record store with find-by-id and save (spec 1). \<^verbatim>\<open>User.findOne({ id })\<close> is the
  first stored user with that id; \<^verbatim>\<open>user.save()\<close> overwrites the stored user of the same id
  or adds the user.
\<close>

definition findOne :: "User list \<Rightarrow> string \<Rightarrow> User option" where
  "findOne users i = List.find (\<lambda>u. user_id u = i) users"

fun save :: "User list \<Rightarrow> User \<Rightarrow> User list" where
  "save [] u = [u]"
| "save (v # vs) u = (if user_id v = user_id u then u # vs else v # save vs u)"

text \<open>\<^verbatim>\<open>io.emit\<close> and \<^verbatim>\<open>socket.emit\<close> append to the events sent.\<close>

definition emit :: "event \<Rightarrow> state \<Rightarrow> state" where
  "emit e st = st\<lparr>emitted := emitted st @ [e]\<rparr>"

text \<open>
  The constructor: both maps empty, \<^verbatim>\<open>new RateLimit(5, 5000)\<close>. The store may hold users
  of earlier runs.
\<close>

definition init :: "User list \<Rightarrow> state" where
  "init users =
     \<lparr>clients = [], sockets = [], heap = [],
      messageRateLimit = \<lparr>rl_capacity = 5, rl_windowMillis = 5000, rl_windows = []\<rparr>,
      snowFlake = 0, db = users, emitted = []\<rparr>"

subsection \<open>The handlers\<close>

text \<open>
  \<^verbatim>\<open>onClientDisconnect\<close>, lines 124 to 133. A reference held by a map is always to an
  allocated object; \<open>heap st ! r\<close> reads it.
\<close>

definition onClientDisconnect :: "state \<Rightarrow> string \<Rightarrow> state" where
  "onClientDisconnect st sid =
     (let client = map_of (sockets st) sid;
          st1 = st\<lparr>sockets := AList.delete sid (sockets st)\<rparr>
      in case client of
           None \<Rightarrow> st1
         | Some r \<Rightarrow>
             let (gone, c) = unregisterSocket (heap st1 ! r) sid;
                 st2 = st1\<lparr>heap := (heap st1)[r := c]\<rparr>
             in if gone
                then emit (SysLeave (serialize c))
                       (st2\<lparr>clients := AList.delete (Client_id c) (clients st2)\<rparr>)
                else st2)"

text \<open>
  \<^verbatim>\<open>onClientAuthenticated\<close>, lines 57 to 122, in the steps of the source. \<open>now\<close> is
  \<^verbatim>\<open>new Date()\<close> and \<open>img\<close> what \<^verbatim>\<open>imageService.getRandomImage()\<close> answers. A string
  is truthy when it is present and not empty.
\<close>

definition truthy :: "string option \<Rightarrow> string option" where
  "truthy x = (case x of None \<Rightarrow> None | Some s \<Rightarrow> if s = [] then None else Some s)"

text \<open>Lines 58 to 60: a socket that is registered already is disconnected first.\<close>

definition disconnectIfKnown :: "state \<Rightarrow> string \<Rightarrow> state" where
  "disconnectIfKnown st sid =
     (if map_of (sockets st) sid \<noteq> None then onClientDisconnect st sid else st)"

text \<open>Lines 62 to 70: the token of the request, \<open>None\<close> when absent or when decoding throws.\<close>

definition decodeToken :: "env \<Rightarrow> ClientAuthRequest \<Rightarrow> string option" where
  "decodeToken E request =
     (case truthy (req_token request) of
        None \<Rightarrow> None
      | Some t \<Rightarrow> tokenService_decode E t)"

text \<open>Line 72: the id of the token, or else the next id of the generator.\<close>

definition resolveId :: "env \<Rightarrow> state \<Rightarrow> ClientAuthRequest \<Rightarrow> string \<times> state" where
  "resolveId E st request =
     (case decodeToken E request of
        Some i \<Rightarrow> (i, st)
      | None \<Rightarrow> (let (n, st1) = nextId st in (toString n, st1)))"

text \<open>Lines 78 to 96: the user record of a client that is not registered.\<close>

definition loadUser :: "env \<Rightarrow> state \<Rightarrow> nat \<Rightarrow> string \<Rightarrow> string \<Rightarrow> ClientAuthRequest \<Rightarrow> string \<Rightarrow> User" where
  "loadUser E st now img sid request i =
     (let user0 = (case findOne (db st) i of
                     Some u \<Rightarrow> u
                   | None \<Rightarrow> \<lparr>user_id = i, user_name = ''anon-'' @ take 6 sid,
                              user_avatar = img, user_lastLogin = 0, user_bot = False\<rparr>);
          user1 = (case truthy (req_name request) of
                     None \<Rightarrow> user0
                   | Some n \<Rightarrow> (case normalizeName E n of
                                  Some n' \<Rightarrow> user0\<lparr>user_name := n'\<rparr>
                                | None \<Rightarrow> user0))
      in user1\<lparr>user_lastLogin := now, user_bot := req_bot request\<rparr>)"

definition onClientAuthenticated ::
  "env \<Rightarrow> state \<Rightarrow> nat \<Rightarrow> string \<Rightarrow> string \<Rightarrow> ClientAuthRequest \<Rightarrow> state" where
  "onClientAuthenticated E st now img sid request =
     (let st0 = disconnectIfKnown st sid;
          (i, st1) = resolveId E st0 request;
          (r, isNew, st2) =
            (case map_of (clients st1) i of
               Some r \<Rightarrow> (r, False, st1)
             | None \<Rightarrow>
                 let user = loadUser E st1 now img sid request i;
                     r = length (heap st1)
                 in (r, True,
                     st1\<lparr>db := save (db st1) user,
                         heap := heap st1 @ [\<lparr>client_user = user, client_sockets = []\<rparr>],
                         clients := AList.update i r (clients st1)\<rparr>));
          st3 = st2\<lparr>heap := (heap st2)[r := registerSocket (heap st2 ! r) sid]\<rparr>;
          st4 = st3\<lparr>sockets := AList.update sid r (sockets st3)\<rparr>;
          client = heap st4 ! r;
          st5 = emit (Ready sid (serialize client)
                        (map (\<lambda>(k, r'). serialize (heap st4 ! r')) (clients st4))
                        (tokenService_createToken E (Client_id client))) st4
      in if isNew then emit (SysJoin (serialize client)) st5 else st5)"

subsection \<open>A login in two parts\<close>

text \<open>
  \<^verbatim>\<open>onClientAuthenticated\<close> suspends at \<^verbatim>\<open>await User.findOne\<close> (line 78) when the
  identity is not registered, after \<^verbatim>\<open>clients.get\<close> (line 74) and before
  \<^verbatim>\<open>clients.set\<close> (line 104); other handlers run in between. A suspended login keeps its
  socket, its request and the id it resolved.
\<close>

record pending =
  pend_sid :: string
  pend_request :: ClientAuthRequest
  pend_id :: string

text \<open>Lines 107 to 121: the connection is attached to the client and the events are sent.\<close>

definition attach :: "env \<Rightarrow> state \<Rightarrow> string \<Rightarrow> nat \<Rightarrow> bool \<Rightarrow> state" where
  "attach E st2 sid r isNew =
     (let st3 = st2\<lparr>heap := (heap st2)[r := registerSocket (heap st2 ! r) sid]\<rparr>;
          st4 = st3\<lparr>sockets := AList.update sid r (sockets st3)\<rparr>;
          client = heap st4 ! r;
          st5 = emit (Ready sid (serialize client)
                        (map (\<lambda>(k, r'). serialize (heap st4 ! r')) (clients st4))
                        (tokenService_createToken E (Client_id client))) st4
      in if isNew then emit (SysJoin (serialize client)) st5 else st5)"

text \<open>
  Lines 58 to 77, up to the first \<^verbatim>\<open>await\<close>. When the identity is registered there is no
  \<^verbatim>\<open>await\<close> on the path and the login runs to its end; otherwise it is suspended.
\<close>

definition loginStart :: "env \<Rightarrow> state \<Rightarrow> string \<Rightarrow> ClientAuthRequest \<Rightarrow> pending option \<times> state" where
  "loginStart E st sid rq =
     (let st0 = disconnectIfKnown st sid;
          (i, st1) = resolveId E st0 rq
      in case map_of (clients st1) i of
           Some r \<Rightarrow> (None, attach E st1 sid r False)
         | None \<Rightarrow> (Some \<lparr>pend_sid = sid, pend_request = rq, pend_id = i\<rparr>, st1))"

text \<open>
  Lines 78 to 121, when the suspended login goes on: the store is read and written now, a new
  client is made and registered under the id, whatever \<^verbatim>\<open>clients\<close> holds for the id by now,
  and the connection is attached. The later awaits of lines 84 and 98 are not split off: the
  model has fewer interleavings than the source, and each of them is one of the source.
\<close>

definition loginResume :: "env \<Rightarrow> state \<Rightarrow> nat \<Rightarrow> string \<Rightarrow> pending \<Rightarrow> state" where
  "loginResume E st now img p =
     (let user = loadUser E st now img (pend_sid p) (pend_request p) (pend_id p);
          r = length (heap st);
          st2 = st\<lparr>db := save (db st) user,
                    heap := heap st @ [\<lparr>client_user = user, client_sockets = []\<rparr>],
                    clients := AList.update (pend_id p) r (clients st)\<rparr>
      in attach E st2 (pend_sid p) r True)"

text \<open>
  Runs of handlers that may overlap: a login begins, the \<open>k\<close>-th suspended login goes on at a
  time and with an image, a connection closes. The state carries the suspended logins.
\<close>

datatype call = Begin string ClientAuthRequest | Resume nat nat string | Close string

fun astep :: "env \<Rightarrow> state \<times> pending list \<Rightarrow> call \<Rightarrow> state \<times> pending list" where
  "astep E (st, ps) (Begin sid rq) =
     (case loginStart E st sid rq of
        (None, st') \<Rightarrow> (st', ps)
      | (Some p, st') \<Rightarrow> (st', ps @ [p]))"
| "astep E (st, ps) (Resume k now img) =
     (if k < length ps then (loginResume E st now img (ps ! k), take k ps @ drop (Suc k) ps)
      else (st, ps))"
| "astep E (st, ps) (Close sid) = (onClientDisconnect st sid, ps)"

definition run :: "env \<Rightarrow> state \<times> pending list \<Rightarrow> call list \<Rightarrow> state \<times> pending list" where
  "run E sp calls = foldl (astep E) sp calls"

subsection \<open>Typing, mentions and messages\<close>

text \<open>\<^verbatim>\<open>onClientStartTyping\<close>, lines 135 to 142: \<^verbatim>\<open>client.id\<close> of \<^verbatim>\<open>undefined\<close> throws.\<close>

definition onClientStartTyping :: "state \<Rightarrow> string \<Rightarrow> outcome \<times> state" where
  "onClientStartTyping st sid =
     (case map_of (sockets st) sid of
        None \<Rightarrow> (Threw TypeError, st)
      | Some r \<Rightarrow>
          (Returned, emit (UsrTyp (Client_id (heap st ! r)) (Client_name (heap st ! r))) st))"

text \<open>
  \<^verbatim>\<open>getMentions\<close>, lines 172 to 186. \<open>split sep s\<close> is \<^verbatim>\<open>s.split(sep)\<close> for a separator
  of one unit: it cuts at every separator and keeps the empty pieces.
\<close>

fun split :: "char \<Rightarrow> string \<Rightarrow> string list" where
  "split sep [] = [[]]"
| "split sep (c # cs) =
     (if c = sep then [] # split sep cs
      else (let ws = split sep cs in (c # hd ws) # tl ws))"

definition startsWith :: "string \<Rightarrow> string \<Rightarrow> bool" where
  "startsWith w p = (take (length p) w = p)"

text \<open>
  Modelled from the spec: \<^verbatim>\<open>selectMany\<close> of \<^verbatim>\<open>@/utils/map\<close> is not among the sources;
  it maps every element to a list and joins the lists in order (spec 4.3, order follows the
  mentions, duplicates are kept).
\<close>

definition selectMany :: "'a list \<Rightarrow> ('a \<Rightarrow> 'b list) \<Rightarrow> 'b list" where
  "selectMany xs f = concat (map f xs)"

definition Map_values :: "state \<Rightarrow> Client list" where
  "Map_values st = map (\<lambda>(k, r). heap st ! r) (clients st)"

definition getMentions :: "state \<Rightarrow> string option \<Rightarrow> string list" where
  "getMentions st content =
     (case truthy content of
        None \<Rightarrow> []
      | Some text \<Rightarrow>
          selectMany
            (map (drop 1) (filter (\<lambda>word. startsWith word ''@'') (split CHR '' '' text)))
            (\<lambda>nick. map Client_id (filter (\<lambda>c. Client_name c = nick) (Map_values st))))"

text \<open>\<^verbatim>\<open>sendMessage\<close>, lines 162 to 170; the fields are computed in the order written.\<close>

definition sendMessage :: "env \<Rightarrow> state \<Rightarrow> string \<Rightarrow> string option \<Rightarrow> Embed option \<Rightarrow> outcome \<times> state" where
  "sendMessage E st userId content emb =
     (let (n, st1) = nextId st
      in case escapeHtml E content of
           Inl e \<Rightarrow> (Threw e, st1)
         | Inr escaped \<Rightarrow>
             (Returned,
              emit (UsrMsg (toString n) userId escaped (validateEmbed E emb)
                      (getMentions st1 content)) st1))"

text \<open>
  \<^verbatim>\<open>onClientMessageReceived\<close>, lines 144 to 160, at time \<open>now\<close>. The client is looked up
  once, before the command dispatcher runs; \<^verbatim>\<open>client.id\<close> is read at the end and throws
  when the lookup gave \<^verbatim>\<open>undefined\<close>.
\<close>

definition truncate :: "string option \<Rightarrow> string option" where
  "truncate m =
     (if 256 < length (case truthy m of None \<Rightarrow> [] | Some s \<Rightarrow> s)
      then map_option (take 256) m else m)"

definition onClientMessageReceived :: "env \<Rightarrow> state \<Rightarrow> nat \<Rightarrow> string \<Rightarrow> Msg \<Rightarrow> outcome \<times> state" where
  "onClientMessageReceived E st now sid msg =
     (let client = map_of (sockets st) sid
      in case commandManager_handle E st client (message msg) of
           (Inl e, st1) \<Rightarrow> (Threw e, st1)
         | (Inr consumed, st1) \<Rightarrow>
             if consumed then (Returned, st1)
             else
               let (allowed, rl) = check (messageRateLimit st1) sid now;
                   st2 = st1\<lparr>messageRateLimit := rl\<rparr>
               in if \<not> allowed then (Returned, st2)
                  else
                    let text = truncate (message msg)
                    in (case client of
                          None \<Rightarrow> (Threw TypeError, st2)
                        | Some r \<Rightarrow> sendMessage E st2 (Client_id (heap st2 ! r)) text None))"

subsection \<open>Serial runs\<close>

text \<open>
  Runs in which every handler, the login too, runs to its end before the next one starts.
\<close>

datatype action = Login nat string string ClientAuthRequest | Disconnect string

fun step :: "env \<Rightarrow> state \<Rightarrow> action \<Rightarrow> state" where
  "step E st (Login now img sid request) = onClientAuthenticated E st now img sid request"
| "step E st (Disconnect sid) = onClientDisconnect st sid"

definition exec :: "env \<Rightarrow> state \<Rightarrow> action list \<Rightarrow> state" where
  "exec E st acts = foldl (step E) st acts"

subsection \<open>The registry and its events\<close>

text \<open>
  The invariant of the registry. Both maps have one entry per key; a registered identity is an
  allocated client with that id and with a connection; a registered connection is in the
  connection set of its client; the connections in the set of a client are registered to that
  client; and a client that has a connection is the one registered under its id.
\<close>

definition registry_inv :: "state \<Rightarrow> bool" where
  "registry_inv st \<longleftrightarrow>
     distinct (map fst (clients st)) \<and> distinct (map fst (sockets st)) \<and>
     (\<forall>(i, r) \<in> set (clients st).
        r < length (heap st) \<and> Client_id (heap st ! r) = i \<and> client_sockets (heap st ! r) \<noteq> []) \<and>
     (\<forall>(s, r) \<in> set (sockets st).
        r < length (heap st) \<and> s \<in> set (client_sockets (heap st ! r))) \<and>
     (\<forall>r \<in> set [0..<length (heap st)].
        (\<forall>s \<in> set (client_sockets (heap st ! r)). map_of (sockets st) s = Some r) \<and>
        (client_sockets (heap st ! r) \<noteq> [] \<longrightarrow>
           map_of (clients st) (Client_id (heap st ! r)) = Some r))"

text \<open>
  The consistency of the registry, part by part: a client is registered under its id exactly
  when it has a connection; the registered ids are the ids of the clients that the reverse map
  points to; a registered identity is a client of that id; every entry of the reverse map points
  to a registered client; every registered client has an entry of the reverse map pointing to
  it.
\<close>

definition registry_consistent :: "state \<Rightarrow> bool" where
  "registry_consistent st \<longleftrightarrow>
     (\<forall>r \<in> set [0..<length (heap st)].
        (map_of (clients st) (Client_id (heap st ! r)) = Some r) = (client_sockets (heap st ! r) \<noteq> [])) \<and>
     set (map fst (clients st)) = set (map (\<lambda>(s, r). Client_id (heap st ! r)) (sockets st)) \<and>
     (\<forall>(i, r) \<in> set (clients st). r < length (heap st) \<and> Client_id (heap st ! r) = i) \<and>
     (\<forall>(s, r) \<in> set (sockets st).
        r < length (heap st) \<and> map_of (clients st) (Client_id (heap st ! r)) = Some r) \<and>
     (\<forall>(i, r) \<in> set (clients st). \<exists>(s, r') \<in> set (sockets st). r' = r)"

text \<open>The connections an identity owns: those of the client registered under the id.\<close>

definition conns :: "state \<Rightarrow> string \<Rightarrow> string set" where
  "conns st i =
     (case map_of (clients st) i of
        None \<Rightarrow> {}
      | Some r \<Rightarrow> set (client_sockets (heap st ! r)))"

text \<open>The number of joins and of leaves sent so far.\<close>

fun isJoin :: "event \<Rightarrow> bool" where
  "isJoin (SysJoin u) = True"
| "isJoin e = False"

fun isLeave :: "event \<Rightarrow> bool" where
  "isLeave (SysLeave u) = True"
| "isLeave e = False"

definition joins :: "state \<Rightarrow> nat" where
  "joins st = length (filter isJoin (emitted st))"

definition leaves :: "state \<Rightarrow> nat" where
  "leaves st = length (filter isLeave (emitted st))"

text \<open>The lengths of the contents of the messages in a list of events.\<close>

fun contentLengths :: "event list \<Rightarrow> nat list" where
  "contentLengths [] = []"
| "contentLengths (UsrMsg n u c e ms # es) = length c # contentLengths es"
| "contentLengths (e # es) = contentLengths es"

subsection \<open>Parts of a login\<close>

text \<open>
  The id that a login resolves to, and the client that it attaches the connection to: the one
  registered under the id, or else the new one.
\<close>

definition loginId :: "env \<Rightarrow> state \<Rightarrow> string \<Rightarrow> ClientAuthRequest \<Rightarrow> string" where
  "loginId E st sid rq = fst (resolveId E (disconnectIfKnown st sid) rq)"

definition loginRef :: "env \<Rightarrow> state \<Rightarrow> string \<Rightarrow> ClientAuthRequest \<Rightarrow> nat" where
  "loginRef E st sid rq =
     (case map_of (clients (disconnectIfKnown st sid)) (loginId E st sid rq) of
        Some r \<Rightarrow> r
      | None \<Rightarrow> length (heap (disconnectIfKnown st sid)))"

text \<open>
  Lines 87 to 93 on their own: the name after the override of the request, which is ignored when
  it is absent, empty or refused by \<^verbatim>\<open>normalizeName\<close>.
\<close>

definition overrideName :: "env \<Rightarrow> ClientAuthRequest \<Rightarrow> string \<Rightarrow> string" where
  "overrideName E rq old =
     (case truthy (req_name rq) of
        None \<Rightarrow> old
      | Some n \<Rightarrow> (case normalizeName E n of Some n' \<Rightarrow> n' | None \<Rightarrow> old))"

text \<open>Reading a decimal numeral back.\<close>

definition parseNat :: "string \<Rightarrow> nat" where
  "parseNat s = foldl (\<lambda>a c. 10 * a + (of_char c - 48)) 0 s"

subsection \<open>Mentions, word by word\<close>

text \<open>The ids of the registered identities of a name, in the order of the registry.\<close>

definition idsNamed :: "state \<Rightarrow> string \<Rightarrow> string list" where
  "idsNamed st nick = map Client_id (filter (\<lambda>c. Client_name c = nick) (Map_values st))"

text \<open>What one word of the text gives: the ids of its name when it begins with \<open>@\<close>.\<close>

definition mentionOf :: "state \<Rightarrow> string \<Rightarrow> string list" where
  "mentionOf st w = (if startsWith w ''@'' then idsNamed st (drop 1 w) else [])"

text \<open>Joining words with single spaces, \<^verbatim>\<open>words.join(" ")\<close>.\<close>

fun joinSpace :: "string list \<Rightarrow> string" where
  "joinSpace [] = []"
| "joinSpace [w] = w"
| "joinSpace (w # ws) = w @ CHR '' '' # joinSpace ws"

text \<open>
  The mention resolver in the words of the spec (4.3), to compare \<open>getMentions\<close> with: the text
  is cut at whitespace, the pieces that begin with \<open>@\<close> lose the marker, and every name gives
  the ids of the registered identities of that name, in the order of the mentions.
\<close>

definition isWhitespace :: "char \<Rightarrow> bool" where
  "isWhitespace c \<longleftrightarrow> c \<in> set [CHR '' '', CHR 0x09, CHR 0x0A, CHR 0x0B, CHR 0x0C, CHR 0x0D]"

fun tokens :: "string \<Rightarrow> string list" where
  "tokens [] = [[]]"
| "tokens (c # cs) =
     (if isWhitespace c then [] # tokens cs
      else (let ws = tokens cs in (c # hd ws) # tl ws))"

definition specMentions :: "state \<Rightarrow> string option \<Rightarrow> string list" where
  "specMentions st content =
     (case content of
        None \<Rightarrow> []
      | Some text \<Rightarrow>
          concat (map (\<lambda>w. idsNamed st (tl w))
                    (filter (\<lambda>w. w \<noteq> [] \<and> hd w = CHR ''@'') (tokens text))))"

subsection \<open>A concrete environment\<close>

text \<open>
  Modelled from the spec: what \<^verbatim>\<open>escapeHtml\<close> writes for one character; the special
  characters of HTML become entities (spec 4.1, broadcastMessage).
\<close>

definition escapeChar :: "char \<Rightarrow> string" where
  "escapeChar c =
     (if c = CHR ''&'' then ''&amp;''
      else if c = CHR ''<'' then ''&lt;''
      else if c = CHR ''>'' then ''&gt;''
      else if c = CHR 0x22 then ''&quot;''
      else if c = CHR 0x27 then ''&#039;''
      else [c])"

text \<open>
  Modelled from the spec: \<^verbatim>\<open>escapeHtml\<close> of \<^verbatim>\<open>@/utils/string-validator\<close> is not among
  the sources; it escapes the special characters of HTML in a text (spec 4.1, broadcastMessage).
\<close>

definition escapeHtml_std :: "string \<Rightarrow> string" where
  "escapeHtml_std s = concat (map escapeChar s)"

text \<open>
  An environment to run the model in: a token is \<open>tok:\<close> and the id, a name of at most 32
  units is its own normal form and a longer one is refused, \<^verbatim>\<open>escapeHtml\<close> is the one above
  and throws on \<^verbatim>\<open>undefined\<close>, embeds pass unchanged, and a text that begins with \<open>/\<close> is a
  command, which is consumed and does nothing.
\<close>

definition sampleEnv :: env where
  "sampleEnv =
     \<lparr>tokenService_decode = (\<lambda>t. if take 4 t = ''tok:'' then Some (drop 4 t) else None),
      tokenService_createToken = (\<lambda>i. ''tok:'' @ i),
      normalizeName = (\<lambda>n. if length n \<le> 32 then Some n else None),
      escapeHtml = (\<lambda>c. case c of None \<Rightarrow> Inl TypeError | Some s \<Rightarrow> Inr (escapeHtml_std s)),
      validateEmbed = (\<lambda>e. e),
      commandManager_handle =
        (\<lambda>st c m. (Inr (case m of None \<Rightarrow> False | Some t \<Rightarrow> startsWith t ''/''), st))\<rparr>"

definition request :: "string option \<Rightarrow> string option \<Rightarrow> ClientAuthRequest" where
  "request t n = \<lparr>req_token = t, req_name = n, req_bot = False\<rparr>"

text \<open>
  States to run it from. One connection of one identity, which the generator names \<open>0\<close>; that
  state after five accepted messages of the socket at time 0; after a second connection has
  logged in at time 9 with the token of the identity and the name Bob; and after the only
  connection has gone, when the identity is in the store only.
\<close>

definition oneClient :: state where
  "oneClient = onClientAuthenticated sampleEnv (init []) 7 ''img'' ''socket-1'' (request None None)"

definition busy :: state where
  "busy = oneClient\<lparr>messageRateLimit :=
       \<lparr>rl_capacity = 5, rl_windowMillis = 5000, rl_windows = [(''socket-1'', 5, 0)]\<rparr>\<rparr>"

definition reconnected :: state where
  "reconnected =
     onClientAuthenticated sampleEnv oneClient 9 ''img2'' ''socket-2''
       (request (Some ''tok:0'') (Some ''Bob''))"

definition departed :: state where
  "departed = onClientDisconnect oneClient ''socket-1''"

text \<open>
  The identity is in the store only, and a connection logs in at time 9 with its token and a name
  of 40 units, which \<^verbatim>\<open>normalizeName\<close> of the environment refuses.
\<close>

definition refused :: state where
  "refused =
     onClientAuthenticated sampleEnv departed 9 ''img2'' ''socket-2''
       (request (Some ''tok:0'') (Some (replicate 40 CHR ''x'')))"

text \<open>Alice and Bob, each with one connection; and three connections of the identity \<open>u1\<close>.\<close>

definition aliceAndBob :: state where
  "aliceAndBob =
     exec sampleEnv (init [])
       [Login 1 ''a.png'' ''socket-1'' (request (Some ''tok:u1'') (Some ''Alice'')),
        Login 2 ''b.png'' ''socket-2'' (request (Some ''tok:u2'') (Some ''Bob''))]"

definition threeTabs :: state where
  "threeTabs =
     exec sampleEnv (init [])
       (map (\<lambda>s. Login 1 ''a.png'' s (request (Some ''tok:u1'') None)) [''s1'', ''s2'', ''s3''])"

text \<open>
  Two connections log in with the token of the identity \<open>u1\<close>, which is not registered; both
  logins are suspended before either goes on. Then the first connection closes.
\<close>

definition twoLogins :: "state \<times> pending list" where
  "twoLogins =
     run sampleEnv (init [], [])
       [Begin ''socket-1'' (request (Some ''tok:u1'') None),
        Begin ''socket-2'' (request (Some ''tok:u1'') None),
        Resume 0 1 ''a.png'', Resume 0 2 ''b.png'']"

definition raced :: "state \<times> pending list" where
  "raced = run sampleEnv twoLogins [Close ''socket-1'']"

section \<open>The registry\<close>

text \<open>The definitions that running the model on a concrete input unfolds.\<close>

lemmas model_defs = aliceAndBob_def oneClient_def exec_def init_def sampleEnv_def request_def
  onClientAuthenticated_def onClientDisconnect_def disconnectIfKnown_def resolveId_def
  decodeToken_def truthy_def loadUser_def findOne_def registerSocket_def unregisterSocket_def
  emit_def nextId_def serialize_def Client_id_def Client_name_def Let_def

subsection \<open>The invariant in terms of lookups\<close>

lemma ball_alist:
  "distinct (map fst al) \<Longrightarrow>
     (\<forall>(k, v) \<in> set al. P k v) \<longleftrightarrow> (\<forall>k v. map_of al k = Some v \<longrightarrow> P k v)"
  by (auto simp: map_of_eq_Some_iff)

lemma registry_inv_iff:
  "registry_inv st \<longleftrightarrow>
     distinct (map fst (clients st)) \<and> distinct (map fst (sockets st)) \<and>
     (\<forall>i r. map_of (clients st) i = Some r \<longrightarrow>
        r < length (heap st) \<and> Client_id (heap st ! r) = i \<and> client_sockets (heap st ! r) \<noteq> []) \<and>
     (\<forall>s r. map_of (sockets st) s = Some r \<longrightarrow>
        r < length (heap st) \<and> s \<in> set (client_sockets (heap st ! r))) \<and>
     (\<forall>r s. r < length (heap st) \<longrightarrow> s \<in> set (client_sockets (heap st ! r)) \<longrightarrow>
        map_of (sockets st) s = Some r) \<and>
     (\<forall>r. r < length (heap st) \<longrightarrow> client_sockets (heap st ! r) \<noteq> [] \<longrightarrow>
        map_of (clients st) (Client_id (heap st ! r)) = Some r)"
proof (cases "distinct (map fst (clients st)) \<and> distinct (map fst (sockets st))")
  case False
  then show ?thesis unfolding registry_inv_def by blast
next
  case True
  have a: "(\<forall>(i, r) \<in> set (clients st). r < length (heap st) \<and> Client_id (heap st ! r) = i \<and> client_sockets (heap st ! r) \<noteq> [])
     \<longleftrightarrow> (\<forall>i r. map_of (clients st) i = Some r \<longrightarrow>
        r < length (heap st) \<and> Client_id (heap st ! r) = i \<and> client_sockets (heap st ! r) \<noteq> [])"
    using True by (intro ball_alist) simp
  have b: "(\<forall>(s, r) \<in> set (sockets st). r < length (heap st) \<and> s \<in> set (client_sockets (heap st ! r)))
     \<longleftrightarrow> (\<forall>s r. map_of (sockets st) s = Some r \<longrightarrow>
        r < length (heap st) \<and> s \<in> set (client_sockets (heap st ! r)))"
    using True by (intro ball_alist) simp
  have c: "(\<forall>r \<in> set [0..<length (heap st)].
        (\<forall>s \<in> set (client_sockets (heap st ! r)). map_of (sockets st) s = Some r) \<and>
        (client_sockets (heap st ! r) \<noteq> [] \<longrightarrow>
           map_of (clients st) (Client_id (heap st ! r)) = Some r))
     \<longleftrightarrow> (\<forall>r s. r < length (heap st) \<longrightarrow> s \<in> set (client_sockets (heap st ! r)) \<longrightarrow>
        map_of (sockets st) s = Some r) \<and>
     (\<forall>r. r < length (heap st) \<longrightarrow> client_sockets (heap st ! r) \<noteq> [] \<longrightarrow>
        map_of (clients st) (Client_id (heap st ! r)) = Some r)"
    by (simp add: Ball_def) blast
  show ?thesis unfolding registry_inv_def a b c using True by blast
qed

lemma registry_invI:
  assumes "distinct (map fst (clients st))" "distinct (map fst (sockets st))"
    and "\<And>i r. map_of (clients st) i = Some r \<Longrightarrow>
        r < length (heap st) \<and> Client_id (heap st ! r) = i \<and> client_sockets (heap st ! r) \<noteq> []"
    and "\<And>s r. map_of (sockets st) s = Some r \<Longrightarrow>
        r < length (heap st) \<and> s \<in> set (client_sockets (heap st ! r))"
    and "\<And>r s. r < length (heap st) \<Longrightarrow> s \<in> set (client_sockets (heap st ! r)) \<Longrightarrow>
        map_of (sockets st) s = Some r"
    and "\<And>r. r < length (heap st) \<Longrightarrow> client_sockets (heap st ! r) \<noteq> [] \<Longrightarrow>
        map_of (clients st) (Client_id (heap st ! r)) = Some r"
  shows "registry_inv st"
  unfolding registry_inv_iff using assms by blast

lemma registry_invD:
  assumes "registry_inv st"
  shows "distinct (map fst (clients st))" "distinct (map fst (sockets st))"
    and "\<And>i r. map_of (clients st) i = Some r \<Longrightarrow>
        r < length (heap st) \<and> Client_id (heap st ! r) = i \<and> client_sockets (heap st ! r) \<noteq> []"
    and "\<And>s r. map_of (sockets st) s = Some r \<Longrightarrow>
        r < length (heap st) \<and> s \<in> set (client_sockets (heap st ! r))"
    and "\<And>r s. r < length (heap st) \<Longrightarrow> s \<in> set (client_sockets (heap st ! r)) \<Longrightarrow>
        map_of (sockets st) s = Some r"
    and "\<And>r. r < length (heap st) \<Longrightarrow> client_sockets (heap st ! r) \<noteq> [] \<Longrightarrow>
        map_of (clients st) (Client_id (heap st ! r)) = Some r"
  using assms unfolding registry_inv_iff by blast+

lemma inv_init: "registry_inv (init users)"
  by (simp add: registry_inv_def init_def)

subsection \<open>Disconnecting keeps the invariant\<close>

lemma disconnect_unknown:
  assumes "map_of (sockets st) sid = None"
  shows "onClientDisconnect st sid = st"
proof -
  have "sid \<notin> fst ` set (sockets st)" using assms by (simp add: map_of_eq_None_iff)
  then have "AList.delete sid (sockets st) = sockets st" by simp
  then show ?thesis using assms by (simp add: onClientDisconnect_def Let_def)
qed

lemma disconnect_known:
  assumes "map_of (sockets st) sid = Some r"
  shows "onClientDisconnect st sid =
     (let c = (heap st ! r)\<lparr>client_sockets := removeAll sid (client_sockets (heap st ! r))\<rparr>;
          st2 = st\<lparr>sockets := AList.delete sid (sockets st), heap := (heap st)[r := c]\<rparr>
      in if client_sockets c = []
         then st2\<lparr>clients := AList.delete (Client_id c) (clients st),
                  emitted := emitted st @ [SysLeave (serialize c)]\<rparr>
         else st2)"
  using assms
  by (simp add: onClientDisconnect_def Let_def unregisterSocket_def emit_def)

lemma inv_disconnect:
  assumes "registry_inv st"
  shows "registry_inv (onClientDisconnect st sid)"
proof (cases "map_of (sockets st) sid")
  case None
  then show ?thesis using assms by (simp add: disconnect_unknown)
next
  case (Some r)
  note I = registry_invD [OF assms]
  from I(4) [OF Some] have r: "r < length (heap st)" and mem: "sid \<in> set (client_sockets (heap st ! r))"
    by simp_all
  from mem have "client_sockets (heap st ! r) \<noteq> []" by auto
  from I(6) [OF r this] have reg: "map_of (clients st) (Client_id (heap st ! r)) = Some r" .
  define c where "c = (heap st ! r)\<lparr>client_sockets := removeAll sid (client_sockets (heap st ! r))\<rparr>"
  have cid: "Client_id c = Client_id (heap st ! r)" by (simp add: c_def Client_id_def)
  define st2 where "st2 = st\<lparr>sockets := AList.delete sid (sockets st), heap := (heap st)[r := c]\<rparr>"
  have nth: "\<And>q. q < length (heap st) \<Longrightarrow>
      client_sockets (heap st2 ! q) =
        (if q = r then removeAll sid (client_sockets (heap st ! r)) else client_sockets (heap st ! q))
      \<and> Client_id (heap st2 ! q) = Client_id (heap st ! q)"
    by (simp add: st2_def c_def nth_list_update Client_id_def)
  have sm: "map_of (sockets st2) = (map_of (sockets st))(sid := None)"
    by (simp add: st2_def delete_conv')
  have len: "length (heap st2) = length (heap st)" by (simp add: st2_def)
  have cl2: "clients st2 = clients st" by (simp add: st2_def)
  have d2: "distinct (map fst (sockets st2))" using I(2) by (simp add: st2_def distinct_delete)
  show ?thesis
  proof (cases "client_sockets c = []")
    case False
    then have eq: "onClientDisconnect st sid = st2"
      using Some by (simp add: disconnect_known Let_def c_def st2_def)
    have ne: "removeAll sid (client_sockets (heap st ! r)) \<noteq> []" using False by (simp add: c_def)
    show ?thesis unfolding eq
    proof (rule registry_invI)
      show "distinct (map fst (clients st2))" using I(1) by (simp add: cl2)
      show "distinct (map fst (sockets st2))" by (rule d2)
    next
      fix i q assume "map_of (clients st2) i = Some q"
      then have a: "map_of (clients st) i = Some q" by (simp add: cl2)
      from I(3) [OF a] have q: "q < length (heap st)" "Client_id (heap st ! q) = i"
        "client_sockets (heap st ! q) \<noteq> []" by simp_all
      then show "q < length (heap st2) \<and> Client_id (heap st2 ! q) = i \<and> client_sockets (heap st2 ! q) \<noteq> []"
        using nth [OF q(1)] ne by (auto simp: len)
    next
      fix s q assume "map_of (sockets st2) s = Some q"
      then have s: "s \<noteq> sid" "map_of (sockets st) s = Some q" by (auto simp: sm split: if_splits)
      from I(4) [OF s(2)] have q: "q < length (heap st)" "s \<in> set (client_sockets (heap st ! q))"
        by simp_all
      then show "q < length (heap st2) \<and> s \<in> set (client_sockets (heap st2 ! q))"
        using nth [OF q(1)] s(1) by (auto simp: len)
    next
      fix q s assume q: "q < length (heap st2)" and s: "s \<in> set (client_sockets (heap st2 ! q))"
      from q have q': "q < length (heap st)" by (simp add: len)
      from s nth [OF q'] have s': "s \<in> set (client_sockets (heap st ! q))" and ns: "q = r \<longrightarrow> s \<noteq> sid"
        by (auto split: if_splits)
      from I(5) [OF q' s'] have m: "map_of (sockets st) s = Some q" .
      with Some ns have "s \<noteq> sid" by auto
      with m show "map_of (sockets st2) s = Some q" by (simp add: sm)
    next
      fix q assume q: "q < length (heap st2)" and s: "client_sockets (heap st2 ! q) \<noteq> []"
      from q have q': "q < length (heap st)" by (simp add: len)
      from s nth [OF q'] have "client_sockets (heap st ! q) \<noteq> []" by (auto split: if_splits)
      from I(6) [OF q' this] show "map_of (clients st2) (Client_id (heap st2 ! q)) = Some q"
        using nth [OF q'] by (simp add: cl2)
    qed
  next
    case True
    define st3 where "st3 = st2\<lparr>clients := AList.delete (Client_id c) (clients st),
                  emitted := emitted st @ [SysLeave (serialize c)]\<rparr>"
    from True have eq: "onClientDisconnect st sid = st3"
      using Some by (simp add: disconnect_known Let_def c_def st2_def st3_def)
    have emp: "removeAll sid (client_sockets (heap st ! r)) = []" using True by (simp add: c_def)
    have cm: "map_of (clients st3) = (map_of (clients st))(Client_id (heap st ! r) := None)"
      by (simp add: st3_def delete_conv' cid)
    have h3: "heap st3 = heap st2" "sockets st3 = sockets st2" by (simp_all add: st3_def)
    show ?thesis unfolding eq
    proof (rule registry_invI)
      show "distinct (map fst (clients st3))" using I(1) by (simp add: st3_def distinct_delete)
      show "distinct (map fst (sockets st3))" using d2 by (simp add: h3)
    next
      fix i q assume "map_of (clients st3) i = Some q"
      then have a: "map_of (clients st) i = Some q" and ni: "i \<noteq> Client_id (heap st ! r)"
        by (auto simp: cm split: if_splits)
      from I(3) [OF a] have q: "q < length (heap st)" "Client_id (heap st ! q) = i"
        "client_sockets (heap st ! q) \<noteq> []" by simp_all
      with ni have "q \<noteq> r" by auto
      then show "q < length (heap st3) \<and> Client_id (heap st3 ! q) = i \<and> client_sockets (heap st3 ! q) \<noteq> []"
        using nth [OF q(1)] q by (auto simp: len h3)
    next
      fix s q assume "map_of (sockets st3) s = Some q"
      then have s: "s \<noteq> sid" "map_of (sockets st) s = Some q" by (auto simp: sm h3 split: if_splits)
      from I(4) [OF s(2)] have q: "q < length (heap st)" "s \<in> set (client_sockets (heap st ! q))"
        by simp_all
      then show "q < length (heap st3) \<and> s \<in> set (client_sockets (heap st3 ! q))"
        using nth [OF q(1)] s(1) by (auto simp: len h3)
    next
      fix q s assume q: "q < length (heap st3)" and s: "s \<in> set (client_sockets (heap st3 ! q))"
      from q have q': "q < length (heap st)" by (simp add: len h3)
      from s nth [OF q'] have s': "s \<in> set (client_sockets (heap st ! q))" and ns: "q = r \<longrightarrow> s \<noteq> sid"
        by (auto simp: h3 split: if_splits)
      from I(5) [OF q' s'] have m: "map_of (sockets st) s = Some q" .
      with Some ns have "s \<noteq> sid" by auto
      with m show "map_of (sockets st3) s = Some q" by (simp add: sm h3)
    next
      fix q assume q: "q < length (heap st3)" and s: "client_sockets (heap st3 ! q) \<noteq> []"
      from q have q': "q < length (heap st)" by (simp add: len h3)
      from s nth [OF q'] emp have qr: "q \<noteq> r" and "client_sockets (heap st ! q) \<noteq> []"
        by (auto simp: h3 split: if_splits)
      from I(6) [OF q' this(2)] have m: "map_of (clients st) (Client_id (heap st ! q)) = Some q" .
      with reg qr have "Client_id (heap st ! q) \<noteq> Client_id (heap st ! r)" by auto
      with m show "map_of (clients st3) (Client_id (heap st3 ! q)) = Some q"
        using nth [OF q'] by (simp add: cm h3)
    qed
  qed
qed

subsection \<open>Logging in keeps the invariant\<close>

lemma resolveId_fields:
  "clients (snd (resolveId E st rq)) = clients st"
  "sockets (snd (resolveId E st rq)) = sockets st"
  "heap (snd (resolveId E st rq)) = heap st"
  "db (snd (resolveId E st rq)) = db st"
  "emitted (snd (resolveId E st rq)) = emitted st"
  "messageRateLimit (snd (resolveId E st rq)) = messageRateLimit st"
  by (simp_all add: resolveId_def nextId_def split: option.splits)

lemma login_known:
  assumes "map_of (clients (disconnectIfKnown st sid)) (fst (resolveId E (disconnectIfKnown st sid) rq)) = Some r"
  shows "onClientAuthenticated E st now img sid rq =
     (let st1 = snd (resolveId E (disconnectIfKnown st sid) rq);
          h = (heap st1)[r := registerSocket (heap st1 ! r) sid]
      in st1\<lparr>heap := h, sockets := AList.update sid r (sockets st1),
             emitted := emitted st1 @
               [Ready sid (serialize (h ! r)) (map (\<lambda>(k, r'). serialize (h ! r')) (clients st1))
                  (tokenService_createToken E (Client_id (h ! r)))]\<rparr>)"
  using assms
  by (simp add: onClientAuthenticated_def Let_def emit_def case_prod_beta resolveId_fields)

lemma login_new:
  assumes "map_of (clients (disconnectIfKnown st sid)) (fst (resolveId E (disconnectIfKnown st sid) rq)) = None"
  shows "onClientAuthenticated E st now img sid rq =
     (let st1 = snd (resolveId E (disconnectIfKnown st sid) rq);
          i = fst (resolveId E (disconnectIfKnown st sid) rq);
          c = \<lparr>client_user = loadUser E st1 now img sid rq i, client_sockets = [sid]\<rparr>;
          r = length (heap st1);
          h = heap st1 @ [c];
          cs = AList.update i r (clients st1)
      in st1\<lparr>db := save (db st1) (client_user c), heap := h, clients := cs,
             sockets := AList.update sid r (sockets st1),
             emitted := emitted st1 @
               [Ready sid (serialize c) (map (\<lambda>(k, r'). serialize (h ! r')) cs)
                  (tokenService_createToken E (Client_id c)), SysJoin (serialize c)]\<rparr>)"
  using assms
  by (simp add: onClientAuthenticated_def Let_def emit_def registerSocket_def case_prod_beta
      resolveId_fields)

lemma findOne_id: "findOne users i = Some u \<Longrightarrow> user_id u = i"
  by (auto simp: findOne_def find_Some_iff)

lemma loadUser_id: "user_id (loadUser E st now img sid rq i) = i"
  by (auto simp: loadUser_def Let_def findOne_id split: option.splits)

lemma disconnectIfKnown_unknown: "map_of (sockets (disconnectIfKnown st sid)) sid = None"
  by (auto simp: disconnectIfKnown_def disconnect_known Let_def delete_conv')

lemma inv_disconnectIfKnown: "registry_inv st \<Longrightarrow> registry_inv (disconnectIfKnown st sid)"
  by (simp add: disconnectIfKnown_def inv_disconnect)

lemma inv_login:
  assumes "registry_inv st"
  shows "registry_inv (onClientAuthenticated E st now img sid rq)"
proof -
  define st0 where "st0 = disconnectIfKnown st sid"
  define i where "i = fst (resolveId E st0 rq)"
  define st1 where "st1 = snd (resolveId E st0 rq)"
  have f1: "clients st1 = clients st0" "sockets st1 = sockets st0" "heap st1 = heap st0"
    by (simp_all add: st1_def resolveId_fields)
  have "registry_inv st0" unfolding st0_def using assms by (rule inv_disconnectIfKnown)
  note I = registry_invD [OF this, folded f1]
  have fresh: "map_of (sockets st1) sid = None"
    by (simp add: f1 st0_def disconnectIfKnown_unknown)
  show ?thesis
  proof (cases "map_of (clients st1) i")
    case (Some r)
    define h where "h = (heap st1)[r := registerSocket (heap st1 ! r) sid]"
    define st' where "st' = st1\<lparr>heap := h, sockets := AList.update sid r (sockets st1),
             emitted := emitted st1 @
               [Ready sid (serialize (h ! r)) (map (\<lambda>(k, r'). serialize (h ! r')) (clients st1))
                  (tokenService_createToken E (Client_id (h ! r)))]\<rparr>"
    have eq: "onClientAuthenticated E st now img sid rq = st'"
      using Some login_known [of st sid E rq r now img]
      by (simp add: Let_def st'_def h_def st1_def i_def st0_def f1 resolveId_fields)
    from I(3) [OF Some] have r: "r < length (heap st1)" "Client_id (heap st1 ! r) = i" by simp_all
    have len: "length (heap st') = length (heap st1)" by (simp add: st'_def h_def)
    have nth: "\<And>q. q < length (heap st1) \<Longrightarrow>
      set (client_sockets (heap st' ! q)) =
        (if q = r then insert sid (set (client_sockets (heap st1 ! r)))
         else set (client_sockets (heap st1 ! q)))
      \<and> Client_id (heap st' ! q) = Client_id (heap st1 ! q)"
      by (simp add: st'_def h_def nth_list_update Client_id_def registerSocket_def)
    have sm: "map_of (sockets st') = (map_of (sockets st1))(sid \<mapsto> r)"
      by (simp add: st'_def update_conv')
    have cl: "clients st' = clients st1" by (simp add: st'_def)
    show ?thesis unfolding eq
    proof (rule registry_invI)
      show "distinct (map fst (clients st'))" using I(1) by (simp add: cl)
      show "distinct (map fst (sockets st'))" using I(2) by (simp add: st'_def distinct_update)
    next
      fix j q assume "map_of (clients st') j = Some q"
      then have a: "map_of (clients st1) j = Some q" by (simp add: cl)
      from I(3) [OF a] have q: "q < length (heap st1)" "Client_id (heap st1 ! q) = j"
        "client_sockets (heap st1 ! q) \<noteq> []" by simp_all
      have "set (client_sockets (heap st' ! q)) \<noteq> {}" using nth [OF q(1)] q(3) by auto
      then show "q < length (heap st') \<and> Client_id (heap st' ! q) = j \<and> client_sockets (heap st' ! q) \<noteq> []"
        using nth [OF q(1)] q by (auto simp: len)
    next
      fix s q assume a: "map_of (sockets st') s = Some q"
      show "q < length (heap st') \<and> s \<in> set (client_sockets (heap st' ! q))"
      proof (cases "s = sid")
        case True
        with a have "q = r" by (simp add: sm)
        then show ?thesis using nth [OF r(1)] r(1) True by (simp add: len)
      next
        case False
        with a have "map_of (sockets st1) s = Some q" by (simp add: sm)
        from I(4) [OF this] show ?thesis using nth by (auto simp: len)
      qed
    next
      fix q s assume q: "q < length (heap st')" and s: "s \<in> set (client_sockets (heap st' ! q))"
      from q have q': "q < length (heap st1)" by (simp add: len)
      show "map_of (sockets st') s = Some q"
      proof (cases "s = sid")
        case True
        have "q = r"
        proof (rule ccontr)
          assume "q \<noteq> r"
          with s nth [OF q'] have "sid \<in> set (client_sockets (heap st1 ! q))" using True by simp
          from I(5) [OF q' this] fresh show False by simp
        qed
        then show ?thesis using True by (simp add: sm)
      next
        case False
        with s nth [OF q'] have "s \<in> set (client_sockets (heap st1 ! q))" by (auto split: if_splits)
        from I(5) [OF q' this] False show ?thesis by (simp add: sm)
      qed
    next
      fix q assume q: "q < length (heap st')" and s: "client_sockets (heap st' ! q) \<noteq> []"
      from q have q': "q < length (heap st1)" by (simp add: len)
      show "map_of (clients st') (Client_id (heap st' ! q)) = Some q"
      proof (cases "q = r")
        case True
        then show ?thesis using nth [OF q'] r Some by (simp add: cl)
      next
        case False
        with s nth [OF q'] have "client_sockets (heap st1 ! q) \<noteq> []" by auto
        from I(6) [OF q' this] show ?thesis using nth [OF q'] by (simp add: cl)
      qed
    qed
  next
    case None
    define c where "c = \<lparr>client_user = loadUser E st1 now img sid rq i, client_sockets = [sid]\<rparr>"
    define r where "r = length (heap st1)"
    define h where "h = heap st1 @ [c]"
    define st' where "st' = st1\<lparr>db := save (db st1) (client_user c), heap := h,
             clients := AList.update i r (clients st1),
             sockets := AList.update sid r (sockets st1),
             emitted := emitted st1 @
               [Ready sid (serialize c)
                  (map (\<lambda>(k, r'). serialize (h ! r')) (AList.update i r (clients st1)))
                  (tokenService_createToken E (Client_id c)), SysJoin (serialize c)]\<rparr>"
    have eq: "onClientAuthenticated E st now img sid rq = st'"
      using None login_new [of st sid E rq now img]
      by (simp add: Let_def st'_def h_def c_def r_def st1_def i_def st0_def f1 resolveId_fields)
    have cid: "Client_id c = i" by (simp add: c_def Client_id_def loadUser_id)
    have len: "length (heap st') = Suc (length (heap st1))" by (simp add: st'_def h_def)
    have old: "\<And>q. q < length (heap st1) \<Longrightarrow> heap st' ! q = heap st1 ! q"
      by (simp add: st'_def h_def nth_append)
    have new: "heap st' ! r = c" by (simp add: st'_def h_def r_def)
    have sm: "map_of (sockets st') = (map_of (sockets st1))(sid \<mapsto> r)"
      by (simp add: st'_def update_conv')
    have cm: "map_of (clients st') = (map_of (clients st1))(i \<mapsto> r)"
      by (simp add: st'_def update_conv')
    show ?thesis unfolding eq
    proof (rule registry_invI)
      show "distinct (map fst (clients st'))" using I(1) by (simp add: st'_def distinct_update)
      show "distinct (map fst (sockets st'))" using I(2) by (simp add: st'_def distinct_update)
    next
      fix j q assume a: "map_of (clients st') j = Some q"
      show "q < length (heap st') \<and> Client_id (heap st' ! q) = j \<and> client_sockets (heap st' ! q) \<noteq> []"
      proof (cases "j = i")
        case True
        with a have "q = r" by (simp add: cm)
        then show ?thesis using True new cid by (simp add: len r_def c_def)
      next
        case False
        with a have "map_of (clients st1) j = Some q" by (simp add: cm)
        from I(3) [OF this] show ?thesis using old by (simp add: len)
      qed
    next
      fix s q assume a: "map_of (sockets st') s = Some q"
      show "q < length (heap st') \<and> s \<in> set (client_sockets (heap st' ! q))"
      proof (cases "s = sid")
        case True
        with a have "q = r" by (simp add: sm)
        then show ?thesis using True new by (simp add: len r_def c_def)
      next
        case False
        with a have "map_of (sockets st1) s = Some q" by (simp add: sm)
        from I(4) [OF this] show ?thesis using old by (simp add: len)
      qed
    next
      fix q s assume q: "q < length (heap st')" and s: "s \<in> set (client_sockets (heap st' ! q))"
      show "map_of (sockets st') s = Some q"
      proof (cases "q = r")
        case True
        with s new have "s = sid" by (simp add: c_def)
        then show ?thesis using True by (simp add: sm)
      next
        case False
        with q have q': "q < length (heap st1)" by (simp add: len r_def)
        with s old have s': "s \<in> set (client_sockets (heap st1 ! q))" by simp
        from I(5) [OF q' s'] fresh have "s \<noteq> sid" by auto
        with I(5) [OF q' s'] show ?thesis by (simp add: sm)
      qed
    next
      fix q assume q: "q < length (heap st')" and s: "client_sockets (heap st' ! q) \<noteq> []"
      show "map_of (clients st') (Client_id (heap st' ! q)) = Some q"
      proof (cases "q = r")
        case True
        then show ?thesis using new cid by (simp add: cm)
      next
        case False
        with q have q': "q < length (heap st1)" by (simp add: len r_def)
        with s old have "client_sockets (heap st1 ! q) \<noteq> []" by simp
        from I(6) [OF q' this] have m: "map_of (clients st1) (Client_id (heap st1 ! q)) = Some q" .
        with None have "Client_id (heap st1 ! q) \<noteq> i" by auto
        with m show ?thesis using old [OF q'] by (simp add: cm)
      qed
    qed
  qed
qed

lemma inv_step: "registry_inv st \<Longrightarrow> registry_inv (step E st a)"
  by (cases a) (simp_all add: inv_login inv_disconnect)

lemma inv_exec: "registry_inv st \<Longrightarrow> registry_inv (exec E st acts)"
  unfolding exec_def by (induction acts arbitrary: st) (simp_all add: inv_step)

lemma inv_consistent:
  assumes "registry_inv st"
  shows "registry_consistent st"
proof -
  note I = registry_invD [OF assms]
  have a: "\<forall>r \<in> set [0..<length (heap st)].
        (map_of (clients st) (Client_id (heap st ! r)) = Some r) = (client_sockets (heap st ! r) \<noteq> [])"
    using I(3) I(6) by auto
  have b: "\<forall>(i, r) \<in> set (clients st). r < length (heap st) \<and> Client_id (heap st ! r) = i"
    using I(1) I(3) by (auto simp: map_of_eq_Some_iff)
  have c: "\<forall>(s, r) \<in> set (sockets st).
        r < length (heap st) \<and> map_of (clients st) (Client_id (heap st ! r)) = Some r"
  proof clarify
    fix s r assume "(s, r) \<in> set (sockets st)"
    with I(2) have "map_of (sockets st) s = Some r" by (simp add: map_of_eq_Some_iff)
    from I(4) [OF this] have r: "r < length (heap st)" and "client_sockets (heap st ! r) \<noteq> []"
      by auto
    from I(6) [OF this] r
    show "r < length (heap st) \<and> map_of (clients st) (Client_id (heap st ! r)) = Some r" by simp
  qed
  have d: "\<forall>(i, r) \<in> set (clients st). \<exists>(s, r') \<in> set (sockets st). r' = r"
  proof clarify
    fix i r assume "(i, r) \<in> set (clients st)"
    with I(1) have "map_of (clients st) i = Some r" by (simp add: map_of_eq_Some_iff)
    from I(3) [OF this] have r: "r < length (heap st)" and "client_sockets (heap st ! r) \<noteq> []"
      by auto
    then obtain s where "s \<in> set (client_sockets (heap st ! r))" by (cases "client_sockets (heap st ! r)") auto
    from I(5) [OF r this] have "(s, r) \<in> set (sockets st)" by (rule map_of_SomeD)
    then show "\<exists>(s, r') \<in> set (sockets st). r' = r" by auto
  qed
  have e: "set (map fst (clients st)) = set (map (\<lambda>(s, r). Client_id (heap st ! r)) (sockets st))"
  proof (intro equalityI subsetI)
    fix i assume "i \<in> set (map fst (clients st))"
    then obtain r where ir: "(i, r) \<in> set (clients st)" by auto
    with d obtain s where "(s, r) \<in> set (sockets st)" by auto
    moreover from b ir have "Client_id (heap st ! r) = i" by auto
    ultimately show "i \<in> set (map (\<lambda>(s, r). Client_id (heap st ! r)) (sockets st))" by force
  next
    fix i assume "i \<in> set (map (\<lambda>(s, r). Client_id (heap st ! r)) (sockets st))"
    then obtain s r where sr: "(s, r) \<in> set (sockets st)" "i = Client_id (heap st ! r)" by auto
    with c have "map_of (clients st) i = Some r" by auto
    then have "(i, r) \<in> set (clients st)" by (rule map_of_SomeD)
    then show "i \<in> set (map fst (clients st))" by force
  qed
  show ?thesis unfolding registry_consistent_def using a b c d e by blast
qed

text \<open>
  Serial runs from the start of the process keep the registry consistent: a client is
  registered under its id exactly when its connection set is not empty, the registered ids are
  the ids of the clients that the reverse map points to, every entry of the reverse map points
  to a registered client, and every registered client has an entry of the reverse map pointing
  to it.
\<close>

lemma serial_runs_consistent: "registry_consistent (exec E (init users) acts)"
  by (rule inv_consistent) (rule inv_exec [OF inv_init])

lemma aliceAndBob_consistent:
  "clients aliceAndBob = [(''u1'', 0), (''u2'', 1)] \<and>
   sockets aliceAndBob = [(''socket-1'', 0), (''socket-2'', 1)] \<and>
   registry_consistent aliceAndBob"
proof -
  have "clients aliceAndBob = [(''u1'', 0), (''u2'', 1)]" by (simp add: model_defs)
  moreover have "sockets aliceAndBob = [(''socket-1'', 0), (''socket-2'', 1)]"
    by (simp add: model_defs)
  moreover have "registry_consistent aliceAndBob"
    unfolding aliceAndBob_def by (rule serial_runs_consistent)
  ultimately show ?thesis by simp
qed

subsection \<open>Overlapping logins\<close>

text \<open>The two parts of a login, run one after the other, are the login.\<close>

lemma login_split:
  "onClientAuthenticated E st now img sid rq =
     (case loginStart E st sid rq of
        (None, st') \<Rightarrow> st'
      | (Some p, st') \<Rightarrow> loginResume E st' now img p)"
  by (simp add: onClientAuthenticated_def loginStart_def loginResume_def attach_def Let_def
      case_prod_beta split: option.splits)

lemma serial_login:
  "run E (st, []) [Begin sid rq, Resume 0 now img] =
     (onClientAuthenticated E st now img sid rq, [])"
  by (simp add: run_def login_split split: prod.splits option.splits)

lemmas split_defs = run_def loginStart_def loginResume_def attach_def

lemma twoLogins_eval:
  "clients (fst twoLogins) = [(''u1'', 1)]"
  "sockets (fst twoLogins) = [(''socket-1'', 0), (''socket-2'', 1)]"
  "map client_sockets (heap (fst twoLogins)) = [[''socket-1''], [''socket-2'']]"
  "map Client_id (heap (fst twoLogins)) = [''u1'', ''u1'']"
  "joins (fst twoLogins) = 2"
  "snd twoLogins = []"
  by (simp_all add: twoLogins_def split_defs model_defs joins_def)

lemma raced_eval:
  "clients (fst raced) = []"
  "sockets (fst raced) = [(''socket-2'', 1)]"
  "map client_sockets (heap (fst raced)) = [[], [''socket-2'']]"
  "map Client_id (heap (fst raced)) = [''u1'', ''u1'']"
  "leaves (fst raced) = 1"
  "snd raced = []"
  by (simp_all add: raced_def twoLogins_def split_defs model_defs leaves_def)

text \<open>
  C1. After any sequence of logins and disconnects the registry should be consistent: an
  identity registered exactly when it has a live connection, and every entry of the reverse map
  pointing to a registered identity. The source does not keep this when logins overlap. Two
  connections log in with the token of an identity that is not registered, and both logins are
  suspended at line 78 before either goes on: each makes a client of its own, the second
  replaces the first in \<^verbatim>\<open>clients\<close>, and two joins are sent. When the first connection
  closes, its client has no connection left, the id is deleted from \<^verbatim>\<open>clients\<close> and a
  leave is sent, while the second connection is live and in the reverse map: the registry is
  empty and is not consistent.
\<close>

theorem overlapping_logins_failing_input:
  "clients (fst twoLogins) = [(''u1'', 1)] \<and>
   sockets (fst twoLogins) = [(''socket-1'', 0), (''socket-2'', 1)] \<and>
   joins (fst twoLogins) = 2 \<and>
   clients (fst raced) = [] \<and>
   sockets (fst raced) = [(''socket-2'', 1)] \<and>
   map client_sockets (heap (fst raced)) = [[], [''socket-2'']] \<and>
   leaves (fst raced) = 1 \<and>
   snd raced = [] \<and>
   \<not> registry_consistent (fst twoLogins) \<and>
   \<not> registry_consistent (fst raced)"
proof -
  have a: "\<not> registry_consistent (fst twoLogins)"
  proof
    assume "registry_consistent (fst twoLogins)"
    then have "\<forall>(s, r) \<in> set (sockets (fst twoLogins)).
        map_of (clients (fst twoLogins)) (Client_id (heap (fst twoLogins) ! r)) = Some r"
      by (auto simp: registry_consistent_def)
    then have "map_of (clients (fst twoLogins)) (Client_id (heap (fst twoLogins) ! 0)) = Some 0"
      by (simp add: twoLogins_eval)
    then show False by (simp add: twoLogins_eval split: if_splits)
  qed
  have b: "\<not> registry_consistent (fst raced)"
  proof
    assume "registry_consistent (fst raced)"
    then have "set (map fst (clients (fst raced))) =
        set (map (\<lambda>(s, r). Client_id (heap (fst raced) ! r)) (sockets (fst raced)))"
      by (simp add: registry_consistent_def)
    then show False by (simp add: raced_eval)
  qed
  show ?thesis using a b by (simp add: twoLogins_eval raced_eval)
qed

theorem overlapping_logins_failing_input_witness:
  "sockets (fst raced) = [(''socket-2'', 1)] \<and>
   map Client_id (heap (fst raced)) = [''u1'', ''u1''] \<and>
   map_of (clients (fst raced)) ''u1'' = None \<and>
   \<not> registry_consistent (fst raced)"
  using overlapping_logins_failing_input by (simp add: raced_eval)

section \<open>Running the model\<close>

lemma digit_0_9:
  "digit 0 = CHR ''0''" "digit 1 = CHR ''1''" "digit 2 = CHR ''2''" "digit 3 = CHR ''3''"
  "digit 4 = CHR ''4''" "digit 5 = CHR ''5''" "digit 6 = CHR ''6''" "digit 7 = CHR ''7''"
  "digit 8 = CHR ''8''" "digit 9 = CHR ''9''"
  by (simp_all add: digit_def char_of_def bit_Suc_0_iff)

lemma oneClient_eval:
  "oneClient =
     \<lparr>clients = [(''0'', 0)], sockets = [(''socket-1'', 0)],
      heap = [\<lparr>client_user = \<lparr>user_id = ''0'', user_name = ''anon-socket'', user_avatar = ''img'',
                 user_lastLogin = 7, user_bot = False\<rparr>, client_sockets = [''socket-1'']\<rparr>],
      messageRateLimit = \<lparr>rl_capacity = 5, rl_windowMillis = 5000, rl_windows = []\<rparr>,
      snowFlake = 1,
      db = [\<lparr>user_id = ''0'', user_name = ''anon-socket'', user_avatar = ''img'',
              user_lastLogin = 7, user_bot = False\<rparr>],
      emitted =
        [Ready ''socket-1'' \<lparr>ser_id = ''0'', ser_name = ''anon-socket'', ser_avatarUrl = ''img'', ser_isBot = False\<rparr>
           [\<lparr>ser_id = ''0'', ser_name = ''anon-socket'', ser_avatarUrl = ''img'', ser_isBot = False\<rparr>] ''tok:0'',
         SysJoin \<lparr>ser_id = ''0'', ser_name = ''anon-socket'', ser_avatarUrl = ''img'', ser_isBot = False\<rparr>]\<rparr>"
  by (simp add: model_defs toString.simps digit_0_9)

section \<open>Typing and messages\<close>

text \<open>
  C5. A typing event or a message of a connection that is not in the reverse map should do
  nothing. The handlers read \<^verbatim>\<open>client.id\<close> of \<^verbatim>\<open>undefined\<close> instead: here the socket
  of the first state sends them after the disconnect step of its second login has run, and both
  throw.
\<close>

theorem unknown_connection_failing_input:
  "map_of (sockets (disconnectIfKnown oneClient ''socket-1'')) ''socket-1'' = None \<and>
   fst (onClientStartTyping (disconnectIfKnown oneClient ''socket-1'') ''socket-1'') = Threw TypeError \<and>
   fst (onClientMessageReceived sampleEnv (disconnectIfKnown oneClient ''socket-1'') 5 ''socket-1''
          \<lparr>message = Some ''hi''\<rparr>) = Threw TypeError"
  by (simp add: oneClient_eval disconnectIfKnown_def onClientDisconnect_def unregisterSocket_def
      emit_def Let_def onClientStartTyping_def onClientMessageReceived_def sampleEnv_def
      startsWith_def check_def)

text \<open>
  C6. A message goes to the command dispatcher first. When a command consumes it the handler
  returns with the state the dispatcher left: the rate limiter is untouched and nothing else is
  sent. Otherwise the rate limiter is asked; when it denies, the handler returns, nothing is
  sent, and only the state of the limiter may differ; when it allows, the truncated text goes to
  \<^verbatim>\<open>sendMessage\<close>.
\<close>

theorem onMessage_order:
  "(commandManager_handle E st (map_of (sockets st) sid) (message msg) = (Inr True, st1) \<longrightarrow>
      onClientMessageReceived E st now sid msg = (Returned, st1)) \<and>
   (commandManager_handle E st (map_of (sockets st) sid) (message msg) = (Inr False, st1) \<longrightarrow>
      (\<not> fst (check (messageRateLimit st1) sid now) \<longrightarrow>
         onClientMessageReceived E st now sid msg =
           (Returned, st1\<lparr>messageRateLimit := snd (check (messageRateLimit st1) sid now)\<rparr>) \<and>
         emitted (snd (onClientMessageReceived E st now sid msg)) = emitted st1) \<and>
      (fst (check (messageRateLimit st1) sid now) \<longrightarrow> map_of (sockets st) sid = Some r \<longrightarrow>
         onClientMessageReceived E st now sid msg =
           sendMessage E (st1\<lparr>messageRateLimit := snd (check (messageRateLimit st1) sid now)\<rparr>)
             (Client_id (heap st1 ! r)) (truncate (message msg)) None))"
  by (intro conjI impI) (simp_all add: onClientMessageReceived_def Let_def case_prod_beta)

theorem onMessage_order_witness:
  "onClientMessageReceived sampleEnv oneClient 5 ''socket-1'' \<lparr>message = Some ''/nick bob''\<rparr>
     = (Returned, oneClient) \<and>
   \<not> fst (check (messageRateLimit busy) ''socket-1'' 10) \<and>
   onClientMessageReceived sampleEnv busy 10 ''socket-1'' \<lparr>message = Some ''hi''\<rparr> = (Returned, busy) \<and>
   fst (check (messageRateLimit oneClient) ''socket-1'' 10) \<and>
   contentLengths (emitted (snd (onClientMessageReceived sampleEnv oneClient 10 ''socket-1'' \<lparr>message = Some ''hi''\<rparr>))) = [2]"
proof -
  have a: "commandManager_handle sampleEnv oneClient (map_of (sockets oneClient) ''socket-1'')
      (message \<lparr>message = Some ''/nick bob''\<rparr>) = (Inr True, oneClient)"
    by (simp add: sampleEnv_def startsWith_def)
  have b: "commandManager_handle sampleEnv busy (map_of (sockets busy) ''socket-1'')
      (message \<lparr>message = Some ''hi''\<rparr>) = (Inr False, busy)"
    by (simp add: sampleEnv_def startsWith_def)
  have b': "commandManager_handle sampleEnv oneClient (map_of (sockets oneClient) ''socket-1'')
      (message \<lparr>message = Some ''hi''\<rparr>) = (Inr False, oneClient)"
    by (simp add: sampleEnv_def startsWith_def)
  have c: "check (messageRateLimit busy) ''socket-1'' 10 = (False, messageRateLimit busy)"
    by (simp add: busy_def check_def)
  have d: "fst (check (messageRateLimit oneClient) ''socket-1'' 10)"
    by (simp add: oneClient_eval check_def)
  have e: "map_of (sockets oneClient) ''socket-1'' = Some 0" by (simp add: oneClient_eval)
  have f: "contentLengths (emitted (snd (sendMessage sampleEnv
             (oneClient\<lparr>messageRateLimit := snd (check (messageRateLimit oneClient) ''socket-1'' 10)\<rparr>)
             (Client_id (heap oneClient ! 0)) (truncate (message \<lparr>message = Some ''hi''\<rparr>)) None))) = [2]"
    by (simp add: oneClient_eval sendMessage_def nextId_def sampleEnv_def truncate_def truthy_def
        escapeHtml_std_def escapeChar_def emit_def)
  from onMessage_order [of sampleEnv oneClient "''socket-1''" "\<lparr>message = Some ''/nick bob''\<rparr>" oneClient 5 0] a
  have 1: "onClientMessageReceived sampleEnv oneClient 5 ''socket-1'' \<lparr>message = Some ''/nick bob''\<rparr>
     = (Returned, oneClient)" by blast
  from onMessage_order [of sampleEnv busy "''socket-1''" "\<lparr>message = Some ''hi''\<rparr>" busy 10 0] b c
  have 2: "onClientMessageReceived sampleEnv busy 10 ''socket-1'' \<lparr>message = Some ''hi''\<rparr> = (Returned, busy)"
    by simp
  from onMessage_order [of sampleEnv oneClient "''socket-1''" "\<lparr>message = Some ''hi''\<rparr>" oneClient 10 0] b' d e
  have 3: "onClientMessageReceived sampleEnv oneClient 10 ''socket-1'' \<lparr>message = Some ''hi''\<rparr> =
       sendMessage sampleEnv (oneClient\<lparr>messageRateLimit := snd (check (messageRateLimit oneClient) ''socket-1'' 10)\<rparr>)
             (Client_id (heap oneClient ! 0)) (truncate (message \<lparr>message = Some ''hi''\<rparr>)) None"
    by blast
  show ?thesis using 1 2 c d f by (simp add: 3)
qed

lemma getMentions_frame [simp]:
  "getMentions (st\<lparr>messageRateLimit := rl\<rparr>) c = getMentions st c"
  "getMentions (st\<lparr>snowFlake := n\<rparr>) c = getMentions st c"
  "getMentions (st\<lparr>emitted := es\<rparr>) c = getMentions st c"
  by (simp_all add: getMentions_def Map_values_def split: option.splits)

lemma contentLengths_append:
  "contentLengths (es @ fs) = contentLengths es @ contentLengths fs"
  by (induction es rule: contentLengths.induct) simp_all

lemma length_escapeHtml_std_replicate:
  "length (escapeHtml_std (replicate n c)) = n * length (escapeChar c)"
  by (induction n) (simp_all add: escapeHtml_std_def)

lemma accepted_message:
  assumes "map_of (sockets st) sid = Some r"
    and "commandManager_handle E st (Some r) (message msg) = (Inr False, st1)"
    and "fst (check (messageRateLimit st1) sid now)"
    and "escapeHtml E (truncate (message msg)) = Inr escaped"
  shows "onClientMessageReceived E st now sid msg =
     (Returned,
      st1\<lparr>messageRateLimit := snd (check (messageRateLimit st1) sid now),
          snowFlake := Suc (snowFlake st1),
          emitted := emitted st1 @
            [UsrMsg (toString (snowFlake st1)) (Client_id (heap st1 ! r)) escaped
               (validateEmbed E None) (getMentions st1 (truncate (message msg)))]\<rparr>)"
  using assms
  by (simp add: onClientMessageReceived_def sendMessage_def nextId_def emit_def Let_def
      case_prod_beta)

text \<open>
  C7, as amended. A message of more than 256 units that no command consumes and that the rate
  limiter lets pass is sent without error: the text is cut to its first 256 units, and the
  content of the event is \<^verbatim>\<open>escapeHtml\<close> of those 256 units. The content has length 256
  when escaping leaves the cut text as it is.
\<close>

theorem long_message_truncated:
  assumes "map_of (sockets st) sid = Some r"
    and "commandManager_handle E st (Some r) (Some text) = (Inr False, st1)"
    and "fst (check (messageRateLimit st1) sid now)"
    and "256 < length text"
    and "escapeHtml E (Some (take 256 text)) = Inr escaped"
  shows "fst (onClientMessageReceived E st now sid \<lparr>message = Some text\<rparr>) = Returned \<and>
     emitted (snd (onClientMessageReceived E st now sid \<lparr>message = Some text\<rparr>)) =
       emitted st1 @
         [UsrMsg (toString (snowFlake st1)) (Client_id (heap st1 ! r)) escaped
            (validateEmbed E None) (getMentions st1 (Some (take 256 text)))] \<and>
     length (take 256 text) = 256 \<and>
     (escaped = take 256 text \<longrightarrow> length escaped = 256)"
proof -
  have t: "truncate (Some text) = Some (take 256 text)"
    using assms(4) by (auto simp: truncate_def truthy_def)
  have "onClientMessageReceived E st now sid \<lparr>message = Some text\<rparr> =
     (Returned,
      st1\<lparr>messageRateLimit := snd (check (messageRateLimit st1) sid now),
          snowFlake := Suc (snowFlake st1),
          emitted := emitted st1 @
            [UsrMsg (toString (snowFlake st1)) (Client_id (heap st1 ! r)) escaped
               (validateEmbed E None) (getMentions st1 (Some (take 256 text)))]\<rparr>)"
    using accepted_message [of st sid r E "\<lparr>message = Some text\<rparr>" st1 now escaped] assms
    by (simp add: t)
  then show ?thesis using assms(4) by simp
qed

theorem long_message_truncated_witness:
  "contentLengths (emitted (snd (onClientMessageReceived sampleEnv oneClient 5 ''socket-1''
       \<lparr>message = Some (replicate 300 CHR ''a'')\<rparr>))) = [256]"
proof -
  have a: "map_of (sockets oneClient) ''socket-1'' = Some 0" by (simp add: oneClient_eval)
  have b: "commandManager_handle sampleEnv oneClient (Some 0) (Some (replicate 300 CHR ''a''))
      = (Inr False, oneClient)"
    by (simp add: sampleEnv_def startsWith_def)
  have c: "fst (check (messageRateLimit oneClient) ''socket-1'' 5)"
    by (simp add: oneClient_eval check_def)
  have d: "(256::nat) < length (replicate 300 CHR ''a'')" by simp
  have e: "escapeHtml sampleEnv (Some (take 256 (replicate 300 CHR ''a''))) = Inr (replicate 256 CHR ''a'')"
    by (simp add: sampleEnv_def escapeHtml_std_def escapeChar_def)
  have f: "contentLengths (emitted oneClient) = []" by (simp add: oneClient_eval)
  from long_message_truncated [OF a b c d e] f
  show ?thesis by (simp add: contentLengths_append)
qed

text \<open>
  C7 as stated fails. The content is escaped after the cut, so it can be longer than 256: 300 times \<open><\<close> is sent
  as 256 times \<open>&lt;\<close>, 1024 units.
\<close>

theorem long_message_counterexample:
  "length (replicate 300 CHR ''<'') = 300 \<and>
   fst (onClientMessageReceived sampleEnv oneClient 5 ''socket-1''
       \<lparr>message = Some (replicate 300 CHR ''<'')\<rparr>) = Returned \<and>
   contentLengths (emitted (snd (onClientMessageReceived sampleEnv oneClient 5 ''socket-1''
       \<lparr>message = Some (replicate 300 CHR ''<'')\<rparr>))) = [1024] \<and>
   contentLengths (emitted (snd (onClientMessageReceived sampleEnv oneClient 5 ''socket-1''
       \<lparr>message = Some (replicate 300 CHR ''<'')\<rparr>))) \<noteq> [256]"
proof -
  have a: "map_of (sockets oneClient) ''socket-1'' = Some 0" by (simp add: oneClient_eval)
  have b: "commandManager_handle sampleEnv oneClient (Some 0)
      (message \<lparr>message = Some (replicate 300 CHR ''<'')\<rparr>) = (Inr False, oneClient)"
    by (simp add: sampleEnv_def startsWith_def)
  have c: "fst (check (messageRateLimit oneClient) ''socket-1'' 5)"
    by (simp add: oneClient_eval check_def)
  have t: "truncate (Some (replicate 300 CHR ''<'')) = Some (replicate 256 CHR ''<'')"
    by (simp add: truncate_def truthy_def)
  have e: "escapeHtml sampleEnv (truncate (message \<lparr>message = Some (replicate 300 CHR ''<'')\<rparr>))
       = Inr (escapeHtml_std (replicate 256 CHR ''<''))"
    by (simp add: t sampleEnv_def)
  have f: "contentLengths (emitted oneClient) = []" by (simp add: oneClient_eval)
  have g: "length (escapeHtml_std (replicate 256 CHR ''<'')) = 1024"
    by (simp add: length_escapeHtml_std_replicate escapeChar_def)
  show ?thesis
    by (simp add: accepted_message [OF a b c e] contentLengths_append f g)
qed

section \<open>Logging in\<close>

lemma findOne_save: "findOne (save users u) (user_id u) = Some u"
  by (induction users) (simp_all add: findOne_def)

lemma decodeToken_Some:
  "req_token rq = Some tok \<Longrightarrow> tok \<noteq> [] \<Longrightarrow> decodeToken E rq = tokenService_decode E tok"
  by (simp add: decodeToken_def truthy_def)

lemma resolveId_token:
  "decodeToken E rq = Some i \<Longrightarrow> resolveId E st rq = (i, st)"
  by (simp add: resolveId_def)

lemma resolveId_fresh:
  "decodeToken E rq = None \<Longrightarrow>
     resolveId E st rq = (toString (snowFlake st), st\<lparr>snowFlake := Suc (snowFlake st)\<rparr>)"
  by (simp add: resolveId_def nextId_def)

lemma loadUser_stored:
  "findOne (db st) i = Some u \<Longrightarrow>
     loadUser E st now img sid rq i =
       u\<lparr>user_name := overrideName E rq (user_name u), user_lastLogin := now, user_bot := req_bot rq\<rparr>"
  by (simp add: loadUser_def overrideName_def Let_def split: option.splits)

lemma loadUser_fresh:
  "findOne (db st) i = None \<Longrightarrow>
     loadUser E st now img sid rq i =
       \<lparr>user_id = i, user_name = overrideName E rq (''anon-'' @ take 6 sid), user_avatar = img,
        user_lastLogin = now, user_bot = req_bot rq\<rparr>"
  by (simp add: loadUser_def overrideName_def Let_def split: option.splits)

text \<open>
  C9, as amended. A login with a token of an identity that is in the store: when the identity
  is not registered at the lookup (it has no other live connection), its record is loaded, the
  login time is set to now, a supplied name is applied when \<^verbatim>\<open>normalizeName\<close> accepts it, and
  the record is saved; when the identity is still registered, the login attaches the connection
  and leaves the record and the store as they are.
\<close>

theorem reconnect_loads_and_updates:
  assumes "req_token rq = Some tok" "tok \<noteq> []" "tokenService_decode E tok = Some i"
    and "findOne (db (disconnectIfKnown st sid)) i = Some u"
    and "st' = onClientAuthenticated E st now img sid rq"
    and "u' = u\<lparr>user_name := overrideName E rq (user_name u), user_lastLogin := now,
                 user_bot := req_bot rq\<rparr>"
  shows "(map_of (clients (disconnectIfKnown st sid)) i = None \<longrightarrow>
            map_of (clients st') i = Some (length (heap (disconnectIfKnown st sid))) \<and>
            client_user (heap st' ! length (heap (disconnectIfKnown st sid))) = u' \<and>
            findOne (db st') i = Some u') \<and>
         (\<forall>r. map_of (clients (disconnectIfKnown st sid)) i = Some r \<longrightarrow>
            map_of (clients st') i = Some r \<and>
            client_user (heap st' ! r) = client_user (heap (disconnectIfKnown st sid) ! r) \<and>
            db st' = db (disconnectIfKnown st sid))"
proof -
  define st0 where "st0 = disconnectIfKnown st sid"
  have d: "decodeToken E rq = Some i" using assms(1-3) by (simp add: decodeToken_Some)
  have res: "resolveId E st0 rq = (i, st0)" using d by (rule resolveId_token)
  have uid: "user_id u = i" using assms(4) by (rule findOne_id)
  have new: "map_of (clients st0) i = None \<Longrightarrow>
            map_of (clients st') i = Some (length (heap st0)) \<and>
            client_user (heap st' ! length (heap st0)) = u' \<and>
            findOne (db st') i = Some u'"
  proof -
    assume n: "map_of (clients st0) i = None"
    have lu: "loadUser E st0 now img sid rq i = u'"
      using assms(4,6) by (simp add: st0_def loadUser_stored)
    have "user_id u' = i" using uid assms(6) by simp
    then have "findOne (save (db st0) u') i = Some u'" using findOne_save [of "db st0" u'] by simp
    then show ?thesis
      using n login_new [of st sid E rq now img] res
      by (simp add: assms(5) st0_def [symmetric] Let_def lu update_conv')
  qed
  have known: "\<And>r. map_of (clients st0) i = Some r \<Longrightarrow>
            map_of (clients st') i = Some r \<and>
            client_user (heap st' ! r) = client_user (heap st0 ! r) \<and>
            db st' = db st0"
  proof -
    fix r assume k: "map_of (clients st0) i = Some r"
    have "client_user ((heap st0)[r := registerSocket (heap st0 ! r) sid] ! r) = client_user (heap st0 ! r)"
      by (cases "r < length (heap st0)") (simp_all add: registerSocket_def list_update_beyond)
    then show "map_of (clients st') i = Some r \<and>
            client_user (heap st' ! r) = client_user (heap st0 ! r) \<and> db st' = db st0"
      using k login_known [of st sid E rq r now img] res
      by (simp add: assms(5) st0_def [symmetric] Let_def)
  qed
  show ?thesis using new known unfolding st0_def by blast
qed

lemma reconnected_eval:
  "heap reconnected =
     [\<lparr>client_user = \<lparr>user_id = ''0'', user_name = ''anon-socket'', user_avatar = ''img'',
                      user_lastLogin = 7, user_bot = False\<rparr>,
       client_sockets = [''socket-2'', ''socket-1'']\<rparr>]"
  "db reconnected = db oneClient"
  "clients reconnected = [(''0'', 0)]"
  by (simp_all add: reconnected_def oneClient_eval onClientAuthenticated_def disconnectIfKnown_def
      resolveId_def decodeToken_def truthy_def sampleEnv_def request_def registerSocket_def emit_def
      Let_def)

lemma departed_eval:
  "departed =
     \<lparr>clients = [], sockets = [],
      heap = [\<lparr>client_user = \<lparr>user_id = ''0'', user_name = ''anon-socket'', user_avatar = ''img'',
                 user_lastLogin = 7, user_bot = False\<rparr>, client_sockets = []\<rparr>],
      messageRateLimit = \<lparr>rl_capacity = 5, rl_windowMillis = 5000, rl_windows = []\<rparr>,
      snowFlake = 1,
      db = [\<lparr>user_id = ''0'', user_name = ''anon-socket'', user_avatar = ''img'',
              user_lastLogin = 7, user_bot = False\<rparr>],
      emitted =
        [Ready ''socket-1'' \<lparr>ser_id = ''0'', ser_name = ''anon-socket'', ser_avatarUrl = ''img'', ser_isBot = False\<rparr>
           [\<lparr>ser_id = ''0'', ser_name = ''anon-socket'', ser_avatarUrl = ''img'', ser_isBot = False\<rparr>] ''tok:0'',
         SysJoin \<lparr>ser_id = ''0'', ser_name = ''anon-socket'', ser_avatarUrl = ''img'', ser_isBot = False\<rparr>,
         SysLeave \<lparr>ser_id = ''0'', ser_name = ''anon-socket'', ser_avatarUrl = ''img'', ser_isBot = False\<rparr>]\<rparr>"
  by (simp add: departed_def oneClient_eval onClientDisconnect_def unregisterSocket_def emit_def
      serialize_def Client_id_def Client_name_def Let_def)

lemma refused_eval:
  "map_of (clients departed) ''0'' = None"
  "normalizeName sampleEnv (replicate 40 CHR ''x'') = None"
  "map_of (clients refused) ''0'' = Some 1"
  "client_user (heap refused ! 1) =
     \<lparr>user_id = ''0'', user_name = ''anon-socket'', user_avatar = ''img'', user_lastLogin = 9,
      user_bot = False\<rparr>"
  by (simp_all add: refused_def departed_eval onClientAuthenticated_def disconnectIfKnown_def
      resolveId_def decodeToken_def truthy_def sampleEnv_def request_def registerSocket_def emit_def
      loadUser_def findOne_def Let_def)

text \<open>
  C9 as stated fails. A second connection logs in at time 9 with the token of the registered identity \<open>0\<close> and the
  name Bob: the identity keeps its name and its login time 7, and the store is unchanged. And
  when the identity is in the store only and the name of the request is refused, the login
  time is set and the name is kept.
\<close>

theorem reconnect_counterexample:
  "tokenService_decode sampleEnv ''tok:0'' = Some ''0'' \<and>
   map_of (clients oneClient) ''0'' = Some 0 \<and>
   user_name (client_user (heap oneClient ! 0)) = ''anon-socket'' \<and>
   user_lastLogin (client_user (heap oneClient ! 0)) = 7 \<and>
   map_of (clients reconnected) ''0'' = Some 0 \<and>
   user_name (client_user (heap reconnected ! 0)) = ''anon-socket'' \<and>
   user_name (client_user (heap reconnected ! 0)) \<noteq> ''Bob'' \<and>
   user_lastLogin (client_user (heap reconnected ! 0)) = 7 \<and>
   user_lastLogin (client_user (heap reconnected ! 0)) \<noteq> 9 \<and>
   db reconnected = db oneClient \<and>
   map_of (clients departed) ''0'' = None \<and>
   normalizeName sampleEnv (replicate 40 CHR ''x'') = None \<and>
   user_name (client_user (heap refused ! 1)) = ''anon-socket'' \<and>
   user_lastLogin (client_user (heap refused ! 1)) = 9"
  by (simp add: reconnected_eval refused_eval refused_eval(4) [simplified])
    (simp add: oneClient_eval sampleEnv_def)


theorem reconnect_loads_and_updates_witness:
  "map_of (clients departed) ''0'' = None \<and>
   client_user (heap (onClientAuthenticated sampleEnv departed 9 ''img2'' ''socket-2''
       (request (Some ''tok:0'') (Some ''Bob''))) ! 1) =
     \<lparr>user_id = ''0'', user_name = ''Bob'', user_avatar = ''img'', user_lastLogin = 9,
      user_bot = False\<rparr> \<and>
   findOne (db (onClientAuthenticated sampleEnv departed 9 ''img2'' ''socket-2''
       (request (Some ''tok:0'') (Some ''Bob'')))) ''0'' =
     Some \<lparr>user_id = ''0'', user_name = ''Bob'', user_avatar = ''img'', user_lastLogin = 9,
      user_bot = False\<rparr> \<and>
   map_of (clients oneClient) ''0'' = Some 0 \<and>
   client_user (heap reconnected ! 0) = client_user (heap oneClient ! 0) \<and>
   db reconnected = db oneClient"
proof -
  let ?rq = "request (Some ''tok:0'') (Some ''Bob'')"
  let ?u = "\<lparr>user_id = ''0'', user_name = ''anon-socket'', user_avatar = ''img'',
              user_lastLogin = 7, user_bot = False\<rparr>"
  have t: "req_token ?rq = Some ''tok:0''" "''tok:0'' \<noteq> []"
    "tokenService_decode sampleEnv ''tok:0'' = Some ''0''"
    by (simp_all add: request_def sampleEnv_def)
  have d1: "disconnectIfKnown departed ''socket-2'' = departed"
    by (simp add: disconnectIfKnown_def departed_eval)
  have d2: "disconnectIfKnown oneClient ''socket-2'' = oneClient"
    by (simp add: disconnectIfKnown_def oneClient_eval)
  have f1: "findOne (db (disconnectIfKnown departed ''socket-2'')) ''0'' = Some ?u"
    by (simp add: d1) (simp add: departed_eval findOne_def)
  have f2: "findOne (db (disconnectIfKnown oneClient ''socket-2'')) ''0'' = Some ?u"
    by (simp add: d2) (simp add: oneClient_eval findOne_def)
  have o: "overrideName sampleEnv ?rq ''anon-socket'' = ''Bob''"
    by (simp add: overrideName_def request_def truthy_def sampleEnv_def)
  have n1: "map_of (clients departed) ''0'' = None" "length (heap departed) = 1"
    by (simp_all add: departed_eval)
  have n2: "map_of (clients oneClient) ''0'' = Some 0" by (simp add: oneClient_eval)
  from reconnect_loads_and_updates [OF t f1 refl refl, of 9 "''img2''"] n1
  have 1: "client_user (heap (onClientAuthenticated sampleEnv departed 9 ''img2'' ''socket-2'' ?rq) ! 1) =
       \<lparr>user_id = ''0'', user_name = ''Bob'', user_avatar = ''img'', user_lastLogin = 9, user_bot = False\<rparr>
     \<and> findOne (db (onClientAuthenticated sampleEnv departed 9 ''img2'' ''socket-2'' ?rq)) ''0'' =
       Some \<lparr>user_id = ''0'', user_name = ''Bob'', user_avatar = ''img'', user_lastLogin = 9, user_bot = False\<rparr>"
    by (simp add: d1 o [unfolded request_def] request_def)
  from reconnect_loads_and_updates [OF t f2 refl refl, of 9 "''img2''"] n2
  have 2: "client_user (heap reconnected ! 0) = client_user (heap oneClient ! 0) \<and>
       db reconnected = db oneClient"
    by (simp add: d2 reconnected_def)
  show ?thesis using 1 2 n1 n2 by simp
qed

lemma parseNat_snoc: "parseNat (s @ [c]) = 10 * parseNat s + (of_char c - 48)"
  by (simp add: parseNat_def)

lemma of_char_digit: "d < 10 \<Longrightarrow> of_char (digit d) = 48 + d"
  by (simp add: digit_def)

lemma parseNat_toString: "parseNat (toString n) = n"
proof (induction n rule: toString.induct)
  case (1 n)
  show ?case
  proof (cases "n < 10")
    case True
    then show ?thesis by (simp add: toString.simps [of n] parseNat_def of_char_digit)
  next
    case False
    with 1 have "parseNat (toString (n div 10)) = n div 10" by simp
    with False show ?thesis
      by (simp add: toString.simps [of n] parseNat_snoc of_char_digit)
  qed
qed

lemma toString_inject: "toString m = toString n \<Longrightarrow> m = n"
  by (metis parseNat_toString)

lemma loadUser_frame [simp]:
  "loadUser E (st\<lparr>snowFlake := n\<rparr>) now img sid rq i = loadUser E st now img sid rq i"
  by (simp add: loadUser_def)

lemma loadUser_token [simp]:
  "loadUser E st now img sid (rq\<lparr>req_token := t\<rparr>) i = loadUser E st now img sid rq i"
  by (simp add: loadUser_def)

lemma joins_append: "length (filter isJoin (es @ [Ready a b c d, SysJoin u])) = Suc (length (filter isJoin es))"
  by simp

text \<open>
  C4. A login whose token fails to decode runs as the login without a token does, and the
  handler has no path that throws. The id is the next one of the generator, which no other
  sequence number gives; the connection is registered to the identity of that id. When that id
  is not in use, the identity is new: a new client with this one connection is registered and one
  join is sent; when the store has no user of that id either, the user is the anonymous one,
  named after the socket unless the request overrides the name.
\<close>

theorem invalid_token_as_anonymous:
  assumes "req_token rq = Some tok" "tokenService_decode E tok = None"
    and "st0 = disconnectIfKnown st sid" "i = toString (snowFlake st0)"
    and "st' = onClientAuthenticated E st now img sid rq"
  shows "st' = onClientAuthenticated E st now img sid (rq\<lparr>req_token := None\<rparr>) \<and>
     snowFlake st' = Suc (snowFlake st0) \<and>
     (\<forall>n. toString n = i \<longrightarrow> n = snowFlake st0) \<and>
     map_of (clients st') i \<noteq> None \<and>
     map_of (sockets st') sid = map_of (clients st') i \<and>
     (map_of (clients st0) i = None \<longrightarrow>
        map_of (clients st') i = Some (length (heap st0)) \<and>
        heap st' ! length (heap st0) =
          \<lparr>client_user = loadUser E st0 now img sid rq i, client_sockets = [sid]\<rparr> \<and>
        joins st' = Suc (joins st0) \<and>
        (findOne (db st0) i = None \<longrightarrow>
           client_user (heap st' ! length (heap st0)) =
             \<lparr>user_id = i, user_name = overrideName E rq (''anon-'' @ take 6 sid),
              user_avatar = img, user_lastLogin = now, user_bot = req_bot rq\<rparr>))"
proof -
  have d: "decodeToken E rq = None"
    using assms(1,2) by (simp add: decodeToken_def truthy_def)
  have d': "decodeToken E (rq\<lparr>req_token := None\<rparr>) = None"
    by (simp add: decodeToken_def truthy_def)
  have res: "resolveId E st0 rq = (i, st0\<lparr>snowFlake := Suc (snowFlake st0)\<rparr>)"
    using d assms(4) by (simp add: resolveId_fresh)
  have res': "resolveId E st0 (rq\<lparr>req_token := None\<rparr>) = resolveId E st0 rq"
    using d d' by (simp add: resolveId_def)
  have same: "st' = onClientAuthenticated E st now img sid (rq\<lparr>req_token := None\<rparr>)"
    unfolding assms(5) onClientAuthenticated_def Let_def res' [unfolded assms(3)] loadUser_token
    by (rule refl)
  have uniq: "\<forall>n. toString n = i \<longrightarrow> n = snowFlake st0"
    using assms(4) toString_inject by blast
  show ?thesis
  proof (cases "map_of (clients st0) i")
    case None
    have n: "map_of (clients (disconnectIfKnown st sid)) (fst (resolveId E (disconnectIfKnown st sid) rq)) = None"
      using None res by (simp add: assms(3) [symmetric])
    have eq: "st' = st0\<lparr>snowFlake := Suc (snowFlake st0),
             db := save (db st0) (loadUser E st0 now img sid rq i),
             heap := heap st0 @ [\<lparr>client_user = loadUser E st0 now img sid rq i, client_sockets = [sid]\<rparr>],
             clients := AList.update i (length (heap st0)) (clients st0),
             sockets := AList.update sid (length (heap st0)) (sockets st0),
             emitted := emitted st0 @
               [Ready sid (serialize \<lparr>client_user = loadUser E st0 now img sid rq i, client_sockets = [sid]\<rparr>)
                  (map (\<lambda>(k, r'). serialize ((heap st0 @ [\<lparr>client_user = loadUser E st0 now img sid rq i, client_sockets = [sid]\<rparr>]) ! r'))
                     (AList.update i (length (heap st0)) (clients st0)))
                  (tokenService_createToken E (Client_id \<lparr>client_user = loadUser E st0 now img sid rq i, client_sockets = [sid]\<rparr>)),
                SysJoin (serialize \<lparr>client_user = loadUser E st0 now img sid rq i, client_sockets = [sid]\<rparr>)]\<rparr>"
      unfolding assms(5) login_new [OF n]
      by (simp add: assms(3) [symmetric] res Let_def)
    have 1: "snowFlake st' = Suc (snowFlake st0)" by (simp add: eq)
    have 2: "map_of (clients st') i = Some (length (heap st0))" by (simp add: eq update_conv')
    have 3: "map_of (sockets st') sid = Some (length (heap st0))" by (simp add: eq update_conv')
    have 4: "heap st' ! length (heap st0) =
          \<lparr>client_user = loadUser E st0 now img sid rq i, client_sockets = [sid]\<rparr>"
      by (simp add: eq)
    have 5: "joins st' = Suc (joins st0)" by (simp add: eq joins_def)
    have 6: "findOne (db st0) i = None \<longrightarrow>
           client_user (heap st' ! length (heap st0)) =
             \<lparr>user_id = i, user_name = overrideName E rq (''anon-'' @ take 6 sid),
              user_avatar = img, user_lastLogin = now, user_bot = req_bot rq\<rparr>"
      by (simp add: 4 loadUser_fresh)
    show ?thesis using same uniq 1 2 3 4 5 6 by simp
  next
    case (Some r)
    have k: "map_of (clients (disconnectIfKnown st sid)) (fst (resolveId E (disconnectIfKnown st sid) rq)) = Some r"
      using Some res by (simp add: assms(3) [symmetric])
    have 1: "snowFlake st' = Suc (snowFlake st0)"
      unfolding assms(5) login_known [OF k] by (simp add: assms(3) [symmetric] res Let_def)
    have 2: "map_of (clients st') i = Some r"
      unfolding assms(5) login_known [OF k] using Some by (simp add: assms(3) [symmetric] res Let_def)
    have 3: "map_of (sockets st') sid = Some r"
      unfolding assms(5) login_known [OF k] by (simp add: assms(3) [symmetric] res Let_def update_conv')
    show ?thesis using same uniq 1 2 3 Some by simp
  qed
qed

theorem invalid_token_as_anonymous_witness:
  "tokenService_decode sampleEnv ''forged'' = None \<and>
   onClientAuthenticated sampleEnv (init []) 7 ''img'' ''socket-1'' (request (Some ''forged'') None)
     = oneClient \<and>
   map_of (clients oneClient) ''0'' = Some 0 \<and>
   client_user (heap oneClient ! 0) =
     \<lparr>user_id = ''0'', user_name = ''anon-socket'', user_avatar = ''img'', user_lastLogin = 7,
      user_bot = False\<rparr> \<and>
   joins oneClient = 1"
proof -
  have a: "req_token (request (Some ''forged'') None) = Some ''forged''"
    "tokenService_decode sampleEnv ''forged'' = None"
    by (simp_all add: request_def sampleEnv_def)
  have b: "init [] = disconnectIfKnown (init []) ''socket-1''"
    by (simp add: disconnectIfKnown_def init_def)
  have c: "(request (Some ''forged'') None)\<lparr>req_token := None\<rparr> = request None None"
    by (simp add: request_def)
  from invalid_token_as_anonymous [OF a b refl refl, of 7 "''img''"]
  have "onClientAuthenticated sampleEnv (init []) 7 ''img'' ''socket-1'' (request (Some ''forged'') None)
     = oneClient"
    by (simp add: c oneClient_def)
  then show ?thesis using a by (simp add: oneClient_eval joins_def)
qed

section \<open>Mentions\<close>

lemma split_not_Nil [simp]: "split sep s \<noteq> []"
  by (induction s) (simp_all add: Let_def)

lemma split_single: "sep \<notin> set w \<Longrightarrow> split sep w = [w]"
  by (induction w) (auto simp: Let_def)

lemma split_append:
  "sep \<notin> set w \<Longrightarrow> split sep (w @ sep # s) = w # split sep s"
  by (induction w) (auto simp: Let_def)

lemma split_joinSpace:
  assumes "ws \<noteq> []" "\<forall>w \<in> set ws. CHR '' '' \<notin> set w"
  shows "split CHR '' '' (joinSpace ws) = ws"
  using assms
proof (induction ws rule: joinSpace.induct)
  case 1
  then show ?case by simp
next
  case (2 w)
  then show ?case by (simp add: split_single)
next
  case (3 w v vs)
  then show ?case by (simp add: split_append)
qed

lemma concat_map_filter:
  "concat (map h (filter P xs)) = concat (map (\<lambda>x. if P x then h x else []) xs)"
  by (induction xs) simp_all

lemma getMentions_text:
  "text \<noteq> [] \<Longrightarrow>
     getMentions st (Some text) = concat (map (mentionOf st) (split CHR '' '' text))"
  by (simp add: getMentions_def truthy_def selectMany_def concat_map_filter mentionOf_def [abs_def]
      idsNamed_def comp_def cong: if_cong)

lemma joinSpace_Nil: "joinSpace ws = [] \<longleftrightarrow> ws = [] \<or> ws = [[]]"
  by (induction ws rule: joinSpace.induct) simp_all

text \<open>
  C8, as amended. Absent and empty text give no mention. The text is cut at every single space
  and at nothing else: of words without a space, joined by single spaces, every word that begins
  with \<open>@\<close> gives, in its place, the ids of the registered identities whose name is the rest
  of the word; the order of the mentions and their repetitions are kept. In a state of the
  registry these ids are the registered ids of that name.
\<close>

theorem mentions_resolved:
  "getMentions st None = [] \<and> getMentions st (Some []) = [] \<and>
   (ws \<noteq> [] \<longrightarrow> (\<forall>w \<in> set ws. CHR '' '' \<notin> set w) \<longrightarrow>
      getMentions st (Some (joinSpace ws)) = concat (map (mentionOf st) ws)) \<and>
   (registry_inv st \<longrightarrow>
      set (idsNamed st nick) =
        {i. \<exists>r. map_of (clients st) i = Some r \<and> Client_name (heap st ! r) = nick})"
proof -
  have a: "getMentions st None = []" "getMentions st (Some []) = []"
    by (simp_all add: getMentions_def truthy_def)
  have b: "getMentions st (Some (joinSpace ws)) = concat (map (mentionOf st) ws)"
    if ws: "ws \<noteq> []" "\<forall>w \<in> set ws. CHR '' '' \<notin> set w"
  proof (cases "joinSpace ws = []")
    case True
    with ws have "ws = [[]]" by (simp add: joinSpace_Nil)
    then show ?thesis by (simp add: a mentionOf_def startsWith_def)
  next
    case False
    then show ?thesis using ws by (simp add: getMentions_text split_joinSpace)
  qed
  have c: "set (idsNamed st nick) =
        {i. \<exists>r. map_of (clients st) i = Some r \<and> Client_name (heap st ! r) = nick}"
    if inv: "registry_inv st"
  proof -
    note I = registry_invD [OF inv]
    have "set (idsNamed st nick) =
        {Client_id (heap st ! r) | k r. (k, r) \<in> set (clients st) \<and> Client_name (heap st ! r) = nick}"
      by (auto simp: idsNamed_def Map_values_def)
    also have "\<dots> = {i. \<exists>r. (i, r) \<in> set (clients st) \<and> Client_name (heap st ! r) = nick}"
      using I(1) I(3) by (auto simp: map_of_eq_Some_iff) 
    also have "\<dots> = {i. \<exists>r. map_of (clients st) i = Some r \<and> Client_name (heap st ! r) = nick}"
      using I(1) by (simp add: map_of_eq_Some_iff)
    finally show ?thesis .
  qed
  show ?thesis using a b c by blast
qed

lemma aliceAndBob_eval:
  "clients aliceAndBob = [(''u1'', 0), (''u2'', 1)]"
  "heap aliceAndBob =
     [\<lparr>client_user = \<lparr>user_id = ''u1'', user_name = ''Alice'', user_avatar = ''a.png'',
                      user_lastLogin = 1, user_bot = False\<rparr>, client_sockets = [''socket-1'']\<rparr>,
      \<lparr>client_user = \<lparr>user_id = ''u2'', user_name = ''Bob'', user_avatar = ''b.png'',
                      user_lastLogin = 2, user_bot = False\<rparr>, client_sockets = [''socket-2'']\<rparr>]"
  by (simp_all add: model_defs)

theorem mentions_resolved_witness:
  "getMentions aliceAndBob (Some ''hello @Alice and @Bob and @Alice'') = [''u1'', ''u2'', ''u1''] \<and>
   registry_inv aliceAndBob \<and>
   set (idsNamed aliceAndBob ''Alice'') =
     {i. \<exists>r. map_of (clients aliceAndBob) i = Some r \<and> Client_name (heap aliceAndBob ! r) = ''Alice''}"
proof -
  have inv: "registry_inv aliceAndBob"
    unfolding aliceAndBob_def by (rule inv_exec [OF inv_init])
  have j: "''hello @Alice and @Bob and @Alice'' =
      joinSpace [''hello'', ''@Alice'', ''and'', ''@Bob'', ''and'', ''@Alice'']"
    by simp
  have m: "mentionOf aliceAndBob ''hello'' = []" "mentionOf aliceAndBob ''and'' = []"
    "mentionOf aliceAndBob ''@Alice'' = [''u1'']" "mentionOf aliceAndBob ''@Bob'' = [''u2'']"
    by (simp_all add: mentionOf_def startsWith_def idsNamed_def Map_values_def aliceAndBob_eval
        Client_id_def Client_name_def)
  from mentions_resolved [of aliceAndBob "[''hello'', ''@Alice'', ''and'', ''@Bob'', ''and'', ''@Alice'']" "''Alice''"] inv
  show ?thesis unfolding j by (simp add: m)
qed

text \<open>
  C8 as stated fails. A tab is whitespace and is no space: the resolver of the source finds no mention in
  \<open>@Alice\<close>, tab, \<open>@Bob\<close>, where cutting at whitespace finds both.
\<close>

theorem mentions_counterexample:
  "getMentions aliceAndBob (Some (''@Alice'' @ [CHR 0x09] @ ''@Bob'')) = [] \<and>
   specMentions aliceAndBob (Some (''@Alice'' @ [CHR 0x09] @ ''@Bob'')) = [''u1'', ''u2''] \<and>
   getMentions aliceAndBob (Some (''@Alice'' @ [CHR 0x09] @ ''@Bob'')) \<noteq>
     specMentions aliceAndBob (Some (''@Alice'' @ [CHR 0x09] @ ''@Bob''))"
  by (simp add: getMentions_def specMentions_def truthy_def selectMany_def startsWith_def
      isWhitespace_def idsNamed_def Map_values_def aliceAndBob_eval Client_id_def Client_name_def
      Let_def)

section \<open>The connections of an identity\<close>

lemma conns_maps:
  assumes "registry_inv st"
  shows "conns st i = {s. \<exists>r. map_of (sockets st) s = Some r \<and> map_of (clients st) i = Some r}"
proof (cases "map_of (clients st) i")
  case None
  then show ?thesis by (simp add: conns_def)
next
  case (Some r)
  note I = registry_invD [OF assms]
  from I(3) [OF Some] have r: "r < length (heap st)" by simp
  have "set (client_sockets (heap st ! r)) = {s. map_of (sockets st) s = Some r}"
    using I(4) I(5) [OF r] by blast
  then show ?thesis using Some by (simp add: conns_def)
qed

lemma conns_registered:
  assumes "registry_inv st"
  shows "(map_of (clients st) i = None) = (conns st i = {})"
proof (cases "map_of (clients st) i")
  case None
  then show ?thesis by (simp add: conns_def)
next
  case (Some r)
  from registry_invD(3) [OF assms Some] have "client_sockets (heap st ! r) \<noteq> []" by simp
  then show ?thesis using Some by (simp add: conns_def)
qed

lemma conns_disjoint:
  assumes "registry_inv st" "s \<in> conns st i" "s \<in> conns st j"
  shows "i = j"
proof -
  from assms obtain r where "map_of (clients st) i = Some r" "map_of (clients st) j = Some r"
    by (auto simp: conns_maps)
  with registry_invD(3) [OF assms(1)] show ?thesis by blast
qed

lemma disconnect_sockets:
  "map_of (sockets (onClientDisconnect st s)) = (map_of (sockets st))(s := None)"
  by (cases "map_of (sockets st) s")
     (simp_all add: onClientDisconnect_def Let_def unregisterSocket_def emit_def delete_conv')

lemma disconnect_clients:
  "map_of (clients (onClientDisconnect st s)) =
     (case map_of (sockets st) s of
        None \<Rightarrow> map_of (clients st)
      | Some r \<Rightarrow>
          if removeAll s (client_sockets (heap st ! r)) = []
          then (map_of (clients st))(Client_id (heap st ! r) := None)
          else map_of (clients st))"
  by (cases "map_of (sockets st) s")
     (simp_all add: onClientDisconnect_def Let_def unregisterSocket_def emit_def delete_conv'
        Client_id_def)

lemma disconnect_emitted:
  "emitted (onClientDisconnect st s) =
     (case map_of (sockets st) s of
        None \<Rightarrow> emitted st
      | Some r \<Rightarrow>
          if removeAll s (client_sockets (heap st ! r)) = []
          then emitted st @
            [SysLeave (serialize ((heap st ! r)\<lparr>client_sockets := []\<rparr>))]
          else emitted st)"
  by (cases "map_of (sockets st) s")
     (simp_all add: onClientDisconnect_def Let_def unregisterSocket_def emit_def)

lemma conns_disconnect:
  assumes "registry_inv st"
  shows "conns (onClientDisconnect st s) j = conns st j - {s}"
proof -
  note I = registry_invD [OF assms]
  have inv': "registry_inv (onClientDisconnect st s)" using assms by (rule inv_disconnect)
  show ?thesis
  proof (cases "map_of (sockets st) s")
    case None
    then have "s \<notin> conns st j" using assms by (simp add: conns_maps)
    then show ?thesis using None by (simp add: disconnect_unknown)
  next
    case (Some r)
    from I(4) [OF Some] have r: "r < length (heap st)" "s \<in> set (client_sockets (heap st ! r))"
      by simp_all
    then have "client_sockets (heap st ! r) \<noteq> []" by auto
    from I(6) [OF r(1) this] have reg: "map_of (clients st) (Client_id (heap st ! r)) = Some r" .
    show ?thesis
    proof (cases "removeAll s (client_sockets (heap st ! r)) = []")
      case False
      then show ?thesis using Some
        by (auto simp: conns_maps [OF inv'] conns_maps [OF assms] disconnect_sockets
            disconnect_clients)
    next
      case True
      then have sub: "set (client_sockets (heap st ! r)) \<subseteq> {s}"
        by (metis removeAll_id removeAll.simps(1) set_removeAll set_empty Diff_eq_empty_iff)
      show ?thesis
      proof (cases "j = Client_id (heap st ! r)")
        case True
        have "conns st j = set (client_sockets (heap st ! r))" using True reg by (simp add: conns_def)
        with sub have "conns st j - {s} = {}" by auto
        moreover have "conns (onClientDisconnect st s) j = {}"
          using True Some \<open>removeAll s (client_sockets (heap st ! r)) = []\<close>
          by (simp add: conns_def disconnect_clients)
        ultimately show ?thesis by simp
      next
        case False
        then show ?thesis using Some True
          by (auto simp: conns_maps [OF inv'] conns_maps [OF assms] disconnect_sockets
              disconnect_clients)
      qed
    qed
  qed
qed

lemma leaves_disconnect:
  assumes "registry_inv st"
  shows "leaves (onClientDisconnect st s) = leaves st + (if \<exists>j. conns st j = {s} then 1 else 0)"
proof (cases "map_of (sockets st) s")
  case None
  then have "\<And>j. s \<notin> conns st j" using assms by (simp add: conns_maps)
  then have "\<not> (\<exists>j. conns st j = {s})" by blast
  then show ?thesis using None by (simp add: disconnect_unknown)
next
  case (Some r)
  note I = registry_invD [OF assms]
  from I(4) [OF Some] have r: "r < length (heap st)" "s \<in> set (client_sockets (heap st ! r))"
    by simp_all
  then have "client_sockets (heap st ! r) \<noteq> []" by auto
  from I(6) [OF r(1) this] have reg: "map_of (clients st) (Client_id (heap st ! r)) = Some r" .
  then have c: "conns st (Client_id (heap st ! r)) = set (client_sockets (heap st ! r))"
    by (simp add: conns_def)
  have iff: "(removeAll s (client_sockets (heap st ! r)) = []) = (\<exists>j. conns st j = {s})"
  proof
    assume "removeAll s (client_sockets (heap st ! r)) = []"
    then have "set (client_sockets (heap st ! r)) \<subseteq> {s}"
      by (metis removeAll_id removeAll.simps(1) set_removeAll set_empty Diff_eq_empty_iff)
    with r(2) have "set (client_sockets (heap st ! r)) = {s}" by auto
    with c show "\<exists>j. conns st j = {s}" by auto
  next
    assume "\<exists>j. conns st j = {s}"
    then obtain j where j: "conns st j = {s}" by blast
    then have "s \<in> conns st j" by simp
    moreover have "s \<in> conns st (Client_id (heap st ! r))" using c r(2) by simp
    ultimately have "j = Client_id (heap st ! r)" by (rule conns_disjoint [OF assms])
    with j c have "set (client_sockets (heap st ! r)) = {s}" by simp
    then show "removeAll s (client_sockets (heap st ! r)) = []"
      by (metis Diff_cancel set_empty set_removeAll)
  qed
  show ?thesis using Some iff by (auto simp: leaves_def disconnect_emitted)
qed

lemma joins_disconnect: "joins (onClientDisconnect st s) = joins st"
  by (cases "map_of (sockets st) s") (simp_all add: joins_def disconnect_emitted)


lemma login_sockets:
  "map_of (sockets (onClientAuthenticated E st now img sid rq)) =
     (map_of (sockets (disconnectIfKnown st sid)))(sid \<mapsto> loginRef E st sid rq)"
proof (cases "map_of (clients (disconnectIfKnown st sid)) (loginId E st sid rq)")
  case None
  then show ?thesis
    using login_new [of st sid E rq now img]
    by (simp add: loginId_def loginRef_def Let_def update_conv' resolveId_fields)
next
  case (Some r)
  then show ?thesis
    using login_known [of st sid E rq r now img]
    by (simp add: loginId_def loginRef_def Let_def update_conv' resolveId_fields)
qed

lemma login_clients:
  "map_of (clients (onClientAuthenticated E st now img sid rq)) =
     (map_of (clients (disconnectIfKnown st sid)))(loginId E st sid rq \<mapsto> loginRef E st sid rq)"
proof (cases "map_of (clients (disconnectIfKnown st sid)) (loginId E st sid rq)")
  case None
  then show ?thesis
    using login_new [of st sid E rq now img]
    by (simp add: loginId_def loginRef_def Let_def update_conv' resolveId_fields)
next
  case (Some r)
  then have "(map_of (clients (disconnectIfKnown st sid)))(loginId E st sid rq \<mapsto> r) =
      map_of (clients (disconnectIfKnown st sid))" by (simp add: map_upd_triv)
  then show ?thesis
    using Some login_known [of st sid E rq r now img]
    by (simp add: loginId_def loginRef_def Let_def resolveId_fields)
qed

lemma login_emitted:
  "\<exists>ready. emitted (onClientAuthenticated E st now img sid rq) =
     emitted (disconnectIfKnown st sid) @
       (if map_of (clients (disconnectIfKnown st sid)) (loginId E st sid rq) = None
        then [Ready sid (fst ready) (fst (snd ready)) (snd (snd ready)), SysJoin (fst ready)]
        else [Ready sid (fst ready) (fst (snd ready)) (snd (snd ready))])"
proof (cases "map_of (clients (disconnectIfKnown st sid)) (loginId E st sid rq)")
  case None
  then show ?thesis
    using login_new [of st sid E rq now img]
    by (simp add: loginId_def Let_def resolveId_fields)
next
  case (Some r)
  then show ?thesis
    using login_known [of st sid E rq r now img]
    by (simp add: loginId_def Let_def resolveId_fields)
qed

lemma joins_disconnectIfKnown: "joins (disconnectIfKnown st sid) = joins st"
  by (simp add: disconnectIfKnown_def joins_disconnect)

lemma joins_login:
  "joins (onClientAuthenticated E st now img sid rq) =
     joins st +
       (if map_of (clients (disconnectIfKnown st sid)) (loginId E st sid rq) = None then 1 else 0)"
proof -
  from login_emitted [of E st now img sid rq] obtain ready where
    "emitted (onClientAuthenticated E st now img sid rq) =
     emitted (disconnectIfKnown st sid) @
       (if map_of (clients (disconnectIfKnown st sid)) (loginId E st sid rq) = None
        then [Ready sid (fst ready) (fst (snd ready)) (snd (snd ready)), SysJoin (fst ready)]
        else [Ready sid (fst ready) (fst (snd ready)) (snd (snd ready))])" ..
  then have "joins (onClientAuthenticated E st now img sid rq) =
     joins (disconnectIfKnown st sid) +
       (if map_of (clients (disconnectIfKnown st sid)) (loginId E st sid rq) = None then 1 else 0)"
    by (simp add: joins_def)
  then show ?thesis by (simp add: joins_disconnectIfKnown)
qed


lemma conns_disconnectIfKnown:
  assumes "registry_inv st"
  shows "conns (disconnectIfKnown st sid) j = conns st j - {sid}"
proof (cases "map_of (sockets st) sid")
  case None
  then have "sid \<notin> conns st j" using assms by (simp add: conns_maps)
  then show ?thesis using None by (simp add: disconnectIfKnown_def)
next
  case (Some r)
  then show ?thesis using assms by (simp add: disconnectIfKnown_def conns_disconnect)
qed

lemma conns_login:
  assumes "registry_inv st"
  shows "conns (onClientAuthenticated E st now img sid rq) j =
     (if j = loginId E st sid rq then insert sid (conns st j) else conns st j - {sid})"
proof -
  define st0 where "st0 = disconnectIfKnown st sid"
  define i where "i = loginId E st sid rq"
  define r where "r = loginRef E st sid rq"
  define st' where "st' = onClientAuthenticated E st now img sid rq"
  have inv0: "registry_inv st0" unfolding st0_def using assms by (rule inv_disconnectIfKnown)
  have inv': "registry_inv st'" unfolding st'_def using assms by (rule inv_login)
  note I = registry_invD [OF inv0]
  have sm: "map_of (sockets st') = (map_of (sockets st0))(sid \<mapsto> r)"
    by (simp add: st'_def st0_def r_def login_sockets)
  have cm: "map_of (clients st') = (map_of (clients st0))(i \<mapsto> r)"
    by (simp add: st'_def st0_def r_def i_def login_clients)
  have fresh: "map_of (sockets st0) sid = None" by (simp add: st0_def disconnectIfKnown_unknown)
  have c0: "conns st0 j = conns st j - {sid}" unfolding st0_def using assms
    by (rule conns_disconnectIfKnown)
  have other: "\<And>k. k \<noteq> i \<Longrightarrow> map_of (clients st0) k \<noteq> Some r"
  proof
    fix k assume k: "k \<noteq> i" and a: "map_of (clients st0) k = Some r"
    from I(3) [OF a] have rr: "r < length (heap st0)" "Client_id (heap st0 ! r) = k" by simp_all
    show False
    proof (cases "map_of (clients st0) i")
      case None
      then have "r = length (heap st0)" by (simp add: r_def loginRef_def i_def st0_def)
      with rr show False by simp
    next
      case (Some q)
      then have "r = q" by (simp add: r_def loginRef_def i_def st0_def)
      with Some I(3) [of i q] rr k show False by simp
    qed
  qed
  have same: "\<And>t. map_of (sockets st0) t = Some r \<Longrightarrow> map_of (clients st0) i = Some r"
  proof -
    fix t assume a: "map_of (sockets st0) t = Some r"
    from I(4) [OF a] have rr: "r < length (heap st0)" by simp
    show "map_of (clients st0) i = Some r"
    proof (cases "map_of (clients st0) i")
      case None
      then have "r = length (heap st0)" by (simp add: r_def loginRef_def i_def st0_def)
      with rr show ?thesis by simp
    next
      case (Some q)
      then show ?thesis by (simp add: r_def loginRef_def i_def st0_def)
    qed
  qed
  have known: "\<And>q. map_of (clients st0) i = Some q \<Longrightarrow> q = r"
    by (simp add: r_def loginRef_def i_def st0_def)
  show ?thesis
  proof (cases "j = i")
    case True
    have "conns st' i = insert sid (conns st0 i)"
      using fresh same known by (auto simp: conns_maps [OF inv'] conns_maps [OF inv0] sm cm)
    then show ?thesis using True c0 by (auto simp: st'_def i_def)
  next
    case False
    have "conns st' j = conns st0 j"
      using fresh other [OF False] False
      by (auto simp: conns_maps [OF inv'] conns_maps [OF inv0] sm cm)
    then show ?thesis using False c0 by (simp add: st'_def i_def)
  qed
qed

lemma loginId_token:
  "req_token rq = Some tok \<Longrightarrow> tok \<noteq> [] \<Longrightarrow> tokenService_decode E tok = Some i \<Longrightarrow>
     loginId E st sid rq = i"
  by (simp add: loginId_def decodeToken_Some resolveId_token)

section \<open>Presence\<close>

text \<open>
  C2. A login sends a join exactly when the identity is not registered at the lookup, that is
  when it is newly created. Two connections that log in one after the other with the same valid
  token, for an identity that is not registered before, cause one join: the first login sends it
  and the second sends none.
\<close>

theorem join_once:
  "joins (onClientAuthenticated E st now img sid rq) =
     joins st +
       (if map_of (clients (disconnectIfKnown st sid)) (loginId E st sid rq) = None then 1 else 0) \<and>
   (registry_inv st \<longrightarrow>
    req_token rq1 = Some tok \<longrightarrow> req_token rq2 = Some tok \<longrightarrow> tok \<noteq> [] \<longrightarrow>
    tokenService_decode E tok = Some i \<longrightarrow> map_of (clients st) i = None \<longrightarrow> s1 \<noteq> s2 \<longrightarrow>
      joins (onClientAuthenticated E st n1 img1 s1 rq1) = Suc (joins st) \<and>
      joins (onClientAuthenticated E (onClientAuthenticated E st n1 img1 s1 rq1) n2 img2 s2 rq2) =
        joins (onClientAuthenticated E st n1 img1 s1 rq1))"
proof -
  have scen: "joins (onClientAuthenticated E st n1 img1 s1 rq1) = Suc (joins st) \<and>
      joins (onClientAuthenticated E (onClientAuthenticated E st n1 img1 s1 rq1) n2 img2 s2 rq2) =
        joins (onClientAuthenticated E st n1 img1 s1 rq1)"
    if inv: "registry_inv st" and t: "req_token rq1 = Some tok" "req_token rq2 = Some tok"
      "tok \<noteq> []" "tokenService_decode E tok = Some i"
      and absent: "map_of (clients st) i = None" and ne: "s1 \<noteq> s2"
  proof -
    define st1 where "st1 = onClientAuthenticated E st n1 img1 s1 rq1"
    have inv1: "registry_inv st1" unfolding st1_def using inv by (rule inv_login)
    have id1: "\<And>st. loginId E st s1 rq1 = i" using t by (simp add: loginId_token)
    have id2: "\<And>st. loginId E st s2 rq2 = i" using t by (simp add: loginId_token)
    have c: "conns st i = {}" using absent by (simp add: conns_def)
    have "conns (disconnectIfKnown st s1) i = {}"
      using c by (simp add: conns_disconnectIfKnown [OF inv])
    then have a1: "map_of (clients (disconnectIfKnown st s1)) i = None"
      by (simp add: conns_registered [OF inv_disconnectIfKnown [OF inv]])
    have c1: "conns st1 i = {s1}"
      using c by (simp add: st1_def conns_login [OF inv] id1)
    then have "conns (disconnectIfKnown st1 s2) i = {s1}"
      using ne by (simp add: conns_disconnectIfKnown [OF inv1])
    then have a2: "map_of (clients (disconnectIfKnown st1 s2)) i \<noteq> None"
      by (simp add: conns_registered [OF inv_disconnectIfKnown [OF inv1]])
    have j1: "joins st1 = Suc (joins st)"
      unfolding st1_def using a1 by (simp add: joins_login id1)
    have j2: "joins (onClientAuthenticated E st1 n2 img2 s2 rq2) = joins st1"
      using a2 by (simp add: joins_login id2)
    show ?thesis using j1 j2 by (simp add: st1_def)
  qed
  show ?thesis using joins_login [of E st now img sid rq] scen by blast
qed

lemma logins_run:
  assumes "req_token rq = Some tok" "tok \<noteq> []" "tokenService_decode E tok = Some i"
  shows "registry_inv st \<Longrightarrow>
     conns (exec E st (map (\<lambda>s. Login now img s rq) ss)) i = conns st i \<union> set ss"
proof (induction ss arbitrary: st)
  case Nil
  then show ?case by (simp add: exec_def)
next
  case (Cons s ss)
  have id: "loginId E st s rq = i" using assms by (rule loginId_token)
  have "conns (exec E (onClientAuthenticated E st now img s rq) (map (\<lambda>s. Login now img s rq) ss)) i =
      conns (onClientAuthenticated E st now img s rq) i \<union> set ss"
    by (rule Cons.IH) (rule inv_login [OF Cons.prems])
  then show ?case by (simp add: exec_def conns_login [OF Cons.prems] id)
qed

lemma disconnects_run:
  "registry_inv st \<Longrightarrow> \<forall>s \<in> set ds. \<forall>j. j \<noteq> i \<longrightarrow> s \<notin> conns st j \<Longrightarrow>
     conns (exec E st (map Disconnect ds)) i = conns st i - set ds \<and>
     leaves (exec E st (map Disconnect ds)) =
       leaves st + (if conns st i \<noteq> {} \<and> conns st i \<subseteq> set ds then 1 else 0)"
proof (induction ds arbitrary: st)
  case Nil
  then show ?case by (simp add: exec_def)
next
  case (Cons s ds)
  define st1 where "st1 = onClientDisconnect st s"
  have inv1: "registry_inv st1" unfolding st1_def using Cons.prems(1) by (rule inv_disconnect)
  have c1: "\<And>j. conns st1 j = conns st j - {s}"
    by (simp add: st1_def conns_disconnect [OF Cons.prems(1)])
  have others: "\<forall>t \<in> set ds. \<forall>j. j \<noteq> i \<longrightarrow> t \<notin> conns st1 j"
    using Cons.prems(2) by (simp add: c1)
  have only: "(\<exists>j. conns st j = {s}) = (conns st i = {s})"
    using Cons.prems(2) by auto
  have l1: "leaves st1 = leaves st + (if conns st i = {s} then 1 else 0)"
    by (simp add: st1_def leaves_disconnect [OF Cons.prems(1)] only)
  from Cons.IH [OF inv1 others]
  have ih: "conns (exec E st1 (map Disconnect ds)) i = conns st1 i - set ds"
    "leaves (exec E st1 (map Disconnect ds)) =
       leaves st1 + (if conns st1 i \<noteq> {} \<and> conns st1 i \<subseteq> set ds then 1 else 0)"
    by simp_all
  have ex: "exec E st (map Disconnect (s # ds)) = exec E st1 (map Disconnect ds)"
    by (simp add: exec_def st1_def)
  have a: "conns (exec E st (map Disconnect (s # ds))) i = conns st i - set (s # ds)"
    unfolding ex ih(1) c1 by auto
  have b: "(if conns st i = {s} then 1 else 0) +
      (if conns st i - {s} \<noteq> {} \<and> conns st i - {s} \<subseteq> set ds then 1 else (0::nat)) =
      (if conns st i \<noteq> {} \<and> conns st i \<subseteq> set (s # ds) then 1 else 0)"
    by auto
  have "leaves (exec E st (map Disconnect (s # ds))) =
     leaves st + ((if conns st i = {s} then 1 else 0) +
      (if conns st i - {s} \<noteq> {} \<and> conns st i - {s} \<subseteq> set ds then 1 else 0))"
    unfolding ex ih(2) l1 c1 by simp
  then show ?case using a unfolding b by simp
qed


theorem join_once_witness:
  "joins (init []) = 0 \<and>
   joins (onClientAuthenticated sampleEnv (init []) 1 ''a.png'' ''socket-1'' (request (Some ''tok:u1'') None)) = 1 \<and>
   joins (onClientAuthenticated sampleEnv
            (onClientAuthenticated sampleEnv (init []) 1 ''a.png'' ''socket-1'' (request (Some ''tok:u1'') None))
            2 ''b.png'' ''socket-2'' (request (Some ''tok:u1'') None)) = 1"
proof -
  have a: "registry_inv (init [])" by (rule inv_init)
  have b: "req_token (request (Some ''tok:u1'') None) = Some ''tok:u1''" "''tok:u1'' \<noteq> []"
    "tokenService_decode sampleEnv ''tok:u1'' = Some ''u1''"
    by (simp_all add: request_def sampleEnv_def)
  have c: "map_of (clients (init [])) ''u1'' = None" "''socket-1'' \<noteq> ''socket-2''"
    "joins (init []) = 0"
    by (simp_all add: init_def joins_def)
  from join_once [of sampleEnv "init []" 1 "''a.png''" "''socket-1''" "request (Some ''tok:u1'') None"
      "request (Some ''tok:u1'') None" "''tok:u1''" "request (Some ''tok:u1'') None" "''u1''"
      "''socket-1''" "''socket-2''" 1 "''a.png''" 2 "''b.png''"] a b c
  show ?thesis by simp
qed

lemma removeAll_Nil_iff: "(removeAll s xs = []) = (set xs \<subseteq> {s})"
  by (induction xs) auto

text \<open>
  C3. Disconnecting a connection that is not in the reverse map changes nothing and sends
  nothing. Disconnecting removes the connection from the reverse map. In a state of the
  registry it takes the connection out of the connections of every identity and of every client;
  an identity is absent afterwards exactly when it had no other connection; when the connection
  was the only one of an identity, one leave of that identity is sent, and otherwise nothing is
  sent. So after the connections \<open>ss\<close> have logged in with the token of an identity that was
  not registered, disconnecting some of them leaves the identity registered and sends no leave,
  and disconnecting all of them removes it and sends exactly one leave.
\<close>

theorem unregister_contract:
  "(map_of (sockets st) s = None \<longrightarrow> onClientDisconnect st s = st) \<and>
   map_of (sockets (onClientDisconnect st s)) s = None \<and>
   (registry_inv st \<longrightarrow>
      (\<forall>j. conns (onClientDisconnect st s) j = conns st j - {s}) \<and>
      (\<forall>r < length (heap (onClientDisconnect st s)).
         s \<notin> set (client_sockets (heap (onClientDisconnect st s) ! r))) \<and>
      (\<forall>j. (map_of (clients (onClientDisconnect st s)) j = None) = (conns st j \<subseteq> {s})) \<and>
      (\<forall>j. conns st j = {s} \<longrightarrow>
         (\<exists>u. ser_id u = j \<and> emitted (onClientDisconnect st s) = emitted st @ [SysLeave u])) \<and>
      ((\<forall>j. conns st j \<noteq> {s}) \<longrightarrow> emitted (onClientDisconnect st s) = emitted st)) \<and>
   (registry_inv st \<longrightarrow> req_token rq = Some tok \<longrightarrow> tok \<noteq> [] \<longrightarrow>
    tokenService_decode E tok = Some i \<longrightarrow> map_of (clients st) i = None \<longrightarrow> set ds \<subseteq> set ss \<longrightarrow>
      conns (exec E st (map (\<lambda>s. Login now img s rq) ss)) i = set ss \<and>
      conns (exec E (exec E st (map (\<lambda>s. Login now img s rq) ss)) (map Disconnect ds)) i =
        set ss - set ds \<and>
      (map_of (clients (exec E (exec E st (map (\<lambda>s. Login now img s rq) ss)) (map Disconnect ds))) i
         = None) = (set ss \<subseteq> set ds) \<and>
      leaves (exec E (exec E st (map (\<lambda>s. Login now img s rq) ss)) (map Disconnect ds)) =
        leaves (exec E st (map (\<lambda>s. Login now img s rq) ss)) +
          (if ss \<noteq> [] \<and> set ss \<subseteq> set ds then 1 else 0))"
proof -
  define st' where "st' = onClientDisconnect st s"
  have p1: "map_of (sockets st) s = None \<longrightarrow> st' = st"
    by (simp add: st'_def disconnect_unknown)
  have p2: "map_of (sockets st') s = None" by (simp add: st'_def disconnect_sockets)
  have p3: "(\<forall>j. conns st' j = conns st j - {s}) \<and>
      (\<forall>r < length (heap st'). s \<notin> set (client_sockets (heap st' ! r))) \<and>
      (\<forall>j. (map_of (clients st') j = None) = (conns st j \<subseteq> {s})) \<and>
      (\<forall>j. conns st j = {s} \<longrightarrow>
         (\<exists>u. ser_id u = j \<and> emitted st' = emitted st @ [SysLeave u])) \<and>
      ((\<forall>j. conns st j \<noteq> {s}) \<longrightarrow> emitted st' = emitted st)"
    if inv: "registry_inv st"
  proof -
    have inv': "registry_inv st'" unfolding st'_def using inv by (rule inv_disconnect)
    have c: "\<And>j. conns st' j = conns st j - {s}"
      by (simp add: st'_def conns_disconnect [OF inv])
    have a: "\<forall>r < length (heap st'). s \<notin> set (client_sockets (heap st' ! r))"
      using registry_invD(5) [OF inv'] p2 by fastforce
    have b: "\<And>j. (map_of (clients st') j = None) = (conns st j \<subseteq> {s})"
      by (auto simp: conns_registered [OF inv'] c)
    have d: "\<exists>u. ser_id u = j \<and> emitted st' = emitted st @ [SysLeave u]"
      if j: "conns st j = {s}" for j
    proof -
      from j obtain r where r: "map_of (sockets st) s = Some r" "map_of (clients st) j = Some r"
        using conns_maps [OF inv, of j] by auto
      from registry_invD(3) [OF inv r(2)] have id: "Client_id (heap st ! r) = j" by simp
      from j r(2) have "set (client_sockets (heap st ! r)) = {s}" by (simp add: conns_def)
      then have "removeAll s (client_sockets (heap st ! r)) = []" by (simp add: removeAll_Nil_iff)
      then have "emitted st' = emitted st @ [SysLeave (serialize ((heap st ! r)\<lparr>client_sockets := []\<rparr>))]"
        using r(1) by (simp add: st'_def disconnect_emitted)
      moreover have "ser_id (serialize ((heap st ! r)\<lparr>client_sockets := []\<rparr>)) = j"
        using id by (simp add: serialize_def Client_id_def)
      ultimately show ?thesis by blast
    qed
    have e: "emitted st' = emitted st" if no: "\<forall>j. conns st j \<noteq> {s}"
    proof -
      have "leaves st' = leaves st"
        using no by (simp add: st'_def leaves_disconnect [OF inv])
      then show ?thesis
        by (cases "map_of (sockets st) s")
          (auto simp: st'_def disconnect_emitted leaves_def split: if_splits)
    qed
    show ?thesis using c a b d e by blast
  qed
  have p4: "conns (exec E st (map (\<lambda>s. Login now img s rq) ss)) i = set ss \<and>
      conns (exec E (exec E st (map (\<lambda>s. Login now img s rq) ss)) (map Disconnect ds)) i =
        set ss - set ds \<and>
      (map_of (clients (exec E (exec E st (map (\<lambda>s. Login now img s rq) ss)) (map Disconnect ds))) i
         = None) = (set ss \<subseteq> set ds) \<and>
      leaves (exec E (exec E st (map (\<lambda>s. Login now img s rq) ss)) (map Disconnect ds)) =
        leaves (exec E st (map (\<lambda>s. Login now img s rq) ss)) +
          (if ss \<noteq> [] \<and> set ss \<subseteq> set ds then 1 else 0)"
    if inv: "registry_inv st" and t: "req_token rq = Some tok" "tok \<noteq> []"
      "tokenService_decode E tok = Some i" and absent: "map_of (clients st) i = None"
      and sub: "set ds \<subseteq> set ss"
  proof -
    define stN where "stN = exec E st (map (\<lambda>s. Login now img s rq) ss)"
    define stD where "stD = exec E stN (map Disconnect ds)"
    have invN: "registry_inv stN" unfolding stN_def using inv by (rule inv_exec)
    have invD: "registry_inv stD" unfolding stD_def using invN by (rule inv_exec)
    have "conns st i = {}" using absent by (simp add: conns_def)
    then have cN: "conns stN i = set ss"
      unfolding stN_def by (simp add: logins_run [OF t inv])
    have others: "\<forall>s \<in> set ds. \<forall>j. j \<noteq> i \<longrightarrow> s \<notin> conns stN j"
      using sub cN conns_disjoint [OF invN] by blast
    from disconnects_run [OF invN others, of E]
    have cD: "conns stD i = set ss - set ds"
      and lD: "leaves stD = leaves stN + (if set ss \<noteq> {} \<and> set ss \<subseteq> set ds then 1 else 0)"
      by (simp_all add: stD_def cN)
    have rD: "(map_of (clients stD) i = None) = (set ss \<subseteq> set ds)"
      by (auto simp: conns_registered [OF invD] cD)
    show ?thesis using cN cD rD lD by (simp add: stN_def stD_def)
  qed
  show ?thesis using p1 p2 p3 p4 unfolding st'_def by blast
qed


theorem unregister_contract_witness:
  "onClientDisconnect oneClient ''ghost'' = oneClient \<and>
   conns oneClient ''0'' = {''socket-1''} \<and>
   map_of (clients (onClientDisconnect oneClient ''socket-1'')) ''0'' = None \<and>
   (\<exists>u. ser_id u = ''0'' \<and>
      emitted (onClientDisconnect oneClient ''socket-1'') = emitted oneClient @ [SysLeave u]) \<and>
   conns threeTabs ''u1'' = {''s1'', ''s2'', ''s3''} \<and>
   map_of (clients (exec sampleEnv threeTabs (map Disconnect [''s1'', ''s2'']))) ''u1'' \<noteq> None \<and>
   leaves (exec sampleEnv threeTabs (map Disconnect [''s1'', ''s2''])) = leaves threeTabs \<and>
   map_of (clients (exec sampleEnv threeTabs (map Disconnect [''s1'', ''s2'', ''s3'']))) ''u1'' = None \<and>
   leaves (exec sampleEnv threeTabs (map Disconnect [''s1'', ''s2'', ''s3''])) = leaves threeTabs + 1"
proof -
  let ?rq = "request (Some ''tok:u1'') None"
  have inv1: "registry_inv oneClient"
    unfolding oneClient_def by (rule inv_login [OF inv_init])
  have g: "map_of (sockets oneClient) ''ghost'' = None" by (simp add: oneClient_eval)
  have c: "conns oneClient ''0'' = {''socket-1''}" by (simp add: conns_def oneClient_eval)
  have t: "req_token ?rq = Some ''tok:u1''" "''tok:u1'' \<noteq> []"
    "tokenService_decode sampleEnv ''tok:u1'' = Some ''u1''"
    by (simp_all add: request_def sampleEnv_def)
  have a: "map_of (clients (init [])) ''u1'' = None" by (simp add: init_def)
  from unregister_contract [of oneClient "''ghost''"] g
  have 1: "onClientDisconnect oneClient ''ghost'' = oneClient" by blast
  from unregister_contract [of oneClient "''socket-1''"] inv1 c
  have 2: "map_of (clients (onClientDisconnect oneClient ''socket-1'')) ''0'' = None \<and>
     (\<exists>u. ser_id u = ''0'' \<and>
        emitted (onClientDisconnect oneClient ''socket-1'') = emitted oneClient @ [SysLeave u])"
    by simp
  from unregister_contract [of "init []" "''s1''" ?rq "''tok:u1''" sampleEnv "''u1''"
      "[''s1'', ''s2'']" "[''s1'', ''s2'', ''s3'']" 1 "''a.png''"] inv_init t a
  have 3: "conns threeTabs ''u1'' = {''s1'', ''s2'', ''s3''} \<and>
     map_of (clients (exec sampleEnv threeTabs (map Disconnect [''s1'', ''s2'']))) ''u1'' \<noteq> None \<and>
     leaves (exec sampleEnv threeTabs (map Disconnect [''s1'', ''s2''])) = leaves threeTabs"
    by (simp add: threeTabs_def)
  from unregister_contract [of "init []" "''s1''" ?rq "''tok:u1''" sampleEnv "''u1''"
      "[''s1'', ''s2'', ''s3'']" "[''s1'', ''s2'', ''s3'']" 1 "''a.png''"] inv_init t a
  have 4: "map_of (clients (exec sampleEnv threeTabs (map Disconnect [''s1'', ''s2'', ''s3'']))) ''u1'' = None \<and>
     leaves (exec sampleEnv threeTabs (map Disconnect [''s1'', ''s2'', ''s3''])) = leaves threeTabs + 1"
    by (simp add: threeTabs_def)
  show ?thesis using 1 2 3 4 c by blast
qed





end
